theory Spec2Isabelle
  imports Main "HOL-Library.AList" "HOL-Library.Sublist"
begin

section \<open>Strings and characters\<close>

text \<open>
  A JavaScript string is a sequence of UTF-16 code units. The model reads a \<^typ>\<open>char\<close>
  as the code unit of the same value, so a \<^typ>\<open>string\<close> is a JavaScript string whose
  code units all lie in U+0000..U+00FF. In that range a code unit is a code point
  (no surrogates), so \<open>value.length\<close>, \<open>split('')\<close> and \<open>for (const ch of value)\<close>
  all walk the same elements.
\<close>

definition code :: "char \<Rightarrow> nat" where
  "code c = of_char c"

text \<open>The class \<open>\s\<close> of a regular expression, which is also what \<open>trim\<close> strips:
  TAB, LF, VT, FF, CR, SPACE and NO-BREAK SPACE are its members below U+0100.\<close>

definition is_space :: "char \<Rightarrow> bool" where
  "is_space c = (code c \<in> set [9, 10, 11, 12, 13, 32, 160])"

text \<open>The class \<open>\d\<close>.\<close>

definition is_digit :: "char \<Rightarrow> bool" where
  "is_digit c = (48 \<le> code c \<and> code c \<le> 57)"

text \<open>The class \<open>\w\<close>, that is \<open>[A-Za-z0-9_]\<close>; it decides \<open>\b\<close>.\<close>

definition is_word_char :: "char \<Rightarrow> bool" where
  "is_word_char c =
     ((48 \<le> code c \<and> code c \<le> 57) \<or> (65 \<le> code c \<and> code c \<le> 90) \<or> code c = 95 \<or>
      (97 \<le> code c \<and> code c \<le> 122))"

text \<open>The class \<open>[a-z0-9]\<close>.\<close>

definition is_lower_alnum :: "char \<Rightarrow> bool" where
  "is_lower_alnum c = ((97 \<le> code c \<and> code c \<le> 122) \<or> (48 \<le> code c \<and> code c \<le> 57))"

text \<open>\<open>String.prototype.toLowerCase\<close>: below U+0100 the letters with a lower-case
  mapping are A..Z and U+00C0..U+00DE without the multiplication sign U+00D7, and the
  mapping adds 32.\<close>

definition to_lower_char :: "char \<Rightarrow> char" where
  "to_lower_char c =
     (if (65 \<le> code c \<and> code c \<le> 90) \<or> (192 \<le> code c \<and> code c \<le> 222 \<and> code c \<noteq> 215)
      then char_of (code c + 32) else c)"

definition toLowerCase :: "string \<Rightarrow> string" where
  "toLowerCase s = map to_lower_char s"

text \<open>\<open>String.prototype.trim\<close>.\<close>

definition trim :: "string \<Rightarrow> string" where
  "trim s = rev (dropWhile is_space (rev (dropWhile is_space s)))"

text \<open>\<open>s.includes(t)\<close>: \<open>t\<close> occurs in \<open>s\<close> as a contiguous substring.\<close>

definition str_includes :: "string \<Rightarrow> string \<Rightarrow> bool" where
  "str_includes s t = sublist t s"

text \<open>\<open>s.split(/\s+/)\<close>. The first argument is the piece collected since the last
  separator. A separator is a maximal run of white space; the pieces before the first
  and after the last separator are kept even when they are empty, as JavaScript does
  (\<open>" a".split(/\s+/)\<close> is \<open>["", "a"]\<close> and \<open>"".split(/\s+/)\<close> is \<open>[""]\<close>).\<close>

function split_ws :: "string \<Rightarrow> string \<Rightarrow> string list" where
  "split_ws cur [] = [cur]"
| "split_ws cur (c # cs) =
     (if is_space c then cur # split_ws [] (dropWhile is_space cs)
      else split_ws (cur @ [c]) cs)"
  by pat_completeness auto
termination
  by (relation "measure (\<lambda>(cur, s). length s)") (auto simp: le_imp_less_Suc length_dropWhile_le)

section \<open>Numbers\<close>

text \<open>
  A JavaScript number is an IEEE 754 double. Every number this program computes is an
  integer, an infinity or NaN, so the model keeps the integer value of a finite number
  and writes the rounding out: integers up to \<open>2^53\<close> in magnitude are exact, a larger one
  is rounded to 53 significant bits, ties to even, and a magnitude that rounds to
  \<open>2^1024\<close> is an infinity. Negative zero is \<open>Num 0\<close>: it compares equal to zero.
\<close>

datatype number = NaN | NegInf | Num int | PosInf

function bitlen :: "int \<Rightarrow> nat" where
  "bitlen n = (if n \<le> 0 then 0 else Suc (bitlen (n div 2)))"
  by pat_completeness auto
termination
  by (relation "measure nat") auto

declare bitlen.simps [simp del]

text \<open>\<open>round53 n\<close> is the double nearest to the integer \<open>n \<ge> 0\<close>, as an integer.\<close>

definition round53 :: "int \<Rightarrow> int" where
  "round53 n =
     (if n \<le> 2 ^ 53 then n
      else let e = bitlen n - 53; q = n div 2 ^ e; r = n mod 2 ^ e
           in (if 2 ^ e < 2 * r \<or> (2 * r = 2 ^ e \<and> odd q) then q + 1 else q) * 2 ^ e)"

definition to_number :: "int \<Rightarrow> number" where
  "to_number x =
     (let m = round53 \<bar>x\<bar>
      in if 2 ^ 1024 \<le> m then (if x < 0 then NegInf else PosInf)
         else Num (if x < 0 then - m else m))"

text \<open>\<open>x + k\<close> and \<open>x - k\<close> for an integer literal \<open>k\<close>: the exact sum, rounded.\<close>

fun num_plus :: "number \<Rightarrow> int \<Rightarrow> number" where
  "num_plus (Num a) k = to_number (a + k)"
| "num_plus x k = x"

text \<open>The relational operator \<open><\<close> (\<open>a > b\<close> is \<open>b < a\<close>); a comparison with NaN is false.\<close>

fun num_less :: "number \<Rightarrow> number \<Rightarrow> bool" where
  "num_less NaN y = False"
| "num_less x NaN = False"
| "num_less x NegInf = False"
| "num_less NegInf y = True"
| "num_less PosInf y = False"
| "num_less (Num a) PosInf = True"
| "num_less (Num a) (Num b) = (a < b)"

text \<open>Strict equality \<open>===\<close> of two numbers: NaN equals nothing.\<close>

definition num_eq :: "number \<Rightarrow> number \<Rightarrow> bool" where
  "num_eq x y = (x \<noteq> NaN \<and> x = y)"

definition digits_value :: "string \<Rightarrow> int" where
  "digits_value ds = foldl (\<lambda>a c. 10 * a + (int (code c) - 48)) 0 ds"

text \<open>\<open>parseInt(s, 10)\<close>: leading white space is skipped, one sign is read, and the
  longest run of decimal digits that follows is the value; what comes after the digits
  is ignored, and NaN is the result when there is no digit. (For more than 20 digits
  ECMAScript lets an implementation approximate; the model rounds the exact value, as
  V8 does.)\<close>

definition parseInt :: "string \<Rightarrow> number" where
  "parseInt s =
     (let t = dropWhile is_space s;
          neg = (case t of [] \<Rightarrow> False | c # r \<Rightarrow> c = CHR ''-'');
          u = (case t of [] \<Rightarrow> [] | c # r \<Rightarrow> if c = CHR ''-'' \<or> c = CHR ''+'' then r else t);
          z = takeWhile is_digit u
      in if z = [] then NaN
         else to_number (if neg then - digits_value z else digits_value z))"

section \<open>The analyzer\<close>

text \<open>\<open>isPalindrome\<close>: the lower-cased string equals its code-unit reversal.\<close>

definition isPalindrome :: "string \<Rightarrow> bool" where
  "isPalindrome v = (let cleaned = toLowerCase v in cleaned = rev cleaned)"

text \<open>\<open>charFrequencyMap\<close>. The object is an association list in insertion order;
  \<open>bump\<close> is the loop body \<open>map[ch] = (map[ch] || 0) + 1\<close>.\<close>

definition bump :: "(char \<times> nat) list \<Rightarrow> char \<Rightarrow> (char \<times> nat) list" where
  "bump m ch = AList.update ch ((case map_of m ch of None \<Rightarrow> 0 | Some n \<Rightarrow> n) + 1) m"

definition charFrequencyMap :: "string \<Rightarrow> (char \<times> nat) list" where
  "charFrequencyMap v = foldl bump [] v"

record properties =
  prop_length :: nat
  prop_is_palindrome :: bool
  unique_characters :: nat
  prop_word_count :: nat
  sha256_hash :: string
  character_frequency_map :: "(char \<times> nat) list"

text \<open>\<open>analyzeString\<close>. The digest function \<open>sha256\<close> comes from Node's \<open>crypto\<close>
  module; it is a parameter here. The \<open>typeof\<close> guard cannot fail on a
  \<^typ>\<open>string\<close>.\<close>

definition analyzeString :: "(string \<Rightarrow> string) \<Rightarrow> string \<Rightarrow> properties" where
  "analyzeString sha256 v =
     (let freq = charFrequencyMap v in
      \<lparr> prop_length = length v,
        prop_is_palindrome = isPalindrome v,
        unique_characters = length (map fst freq),
        prop_word_count = (if trim v = [] then 0 else length (split_ws [] (trim v))),
        sha256_hash = sha256 v,
        character_frequency_map = freq \<rparr>)"

section \<open>Regular expressions\<close>

text \<open>
  ECMAScript gives a pattern its meaning as a matcher: a function of a continuation and a
  position that returns the continuation's result on the first way of matching that the
  continuation accepts, trying the ways in the pattern's priority order (the left
  alternative first, the longest repetition first). The patterns of this program are
  built from the matchers below. A position is the character before it, which \<open>\b\<close>
  looks at, and the rest of the input.
\<close>

type_synonym ctx = "char option \<times> string"

type_synonym 'a cont = "ctx \<Rightarrow> 'a option"

text \<open>A literal string.\<close>

fun lit :: "string \<Rightarrow> 'a cont \<Rightarrow> 'a cont" where
  "lit w k (prev, s) =
     (if prefix w s then k (if w = [] then prev else Some (last w), drop (length w) s)
      else None)"

text \<open>\<open>\b\<close>: exactly one of the characters around the position is a word character;
  the ends of the input count as non-word.\<close>

definition word_before :: "char option \<Rightarrow> bool" where
  "word_before prev = (case prev of None \<Rightarrow> False | Some c \<Rightarrow> is_word_char c)"

definition word_after :: "string \<Rightarrow> bool" where
  "word_after s = (case s of [] \<Rightarrow> False | c # cs \<Rightarrow> is_word_char c)"

fun wordb :: "'a cont \<Rightarrow> 'a cont" where
  "wordb k (prev, s) = (if word_before prev \<noteq> word_after s then k (prev, s) else None)"

text \<open>\<open>A|B\<close>, followed by \<open>k\<close>: \<open>A\<close> first, and \<open>B\<close> when nothing that starts with
  \<open>A\<close> leads to a match.\<close>

definition alt :: "('a cont \<Rightarrow> 'a cont) \<Rightarrow> ('a cont \<Rightarrow> 'a cont) \<Rightarrow> 'a cont \<Rightarrow> 'a cont" where
  "alt m1 m2 k c = (case m1 k c of Some r \<Rightarrow> Some r | None \<Rightarrow> m2 k c)"

text \<open>\<open>(A)?\<close>, greedy: with \<open>A\<close> first, without it otherwise.\<close>

definition opt :: "('a cont \<Rightarrow> 'a cont) \<Rightarrow> 'a cont \<Rightarrow> 'a cont" where
  "opt m k c = (case m k c of Some r \<Rightarrow> Some r | None \<Rightarrow> k c)"

text \<open>\<open>C+\<close> for a character class \<open>C\<close>, greedy: one character of the class, then as
  many more as possible, giving them back one at a time while the continuation fails.\<close>

fun rep1 :: "(char \<Rightarrow> bool) \<Rightarrow> 'a cont \<Rightarrow> 'a cont" where
  "rep1 P k (prev, []) = None"
| "rep1 P k (prev, c # cs) =
     (if P c
      then (case rep1 P k (Some c, cs) of Some r \<Rightarrow> Some r | None \<Rightarrow> k (Some c, cs))
      else None)"

text \<open>\<open>(C+)\<close>: the same inside a capture group; the continuation receives the captured
  text, collected in the third argument.\<close>

fun rep1_cap :: "(char \<Rightarrow> bool) \<Rightarrow> (string \<Rightarrow> 'a cont) \<Rightarrow> string \<Rightarrow> 'a cont" where
  "rep1_cap P k acc (prev, []) = None"
| "rep1_cap P k acc (prev, c # cs) =
     (if P c
      then (case rep1_cap P k (acc @ [c]) (Some c, cs) of
              Some r \<Rightarrow> Some r
            | None \<Rightarrow> k (acc @ [c]) (Some c, cs))
      else None)"

text \<open>\<open>(C)\<close>: one character of a class, captured.\<close>

fun cls_cap :: "(char \<Rightarrow> bool) \<Rightarrow> (char \<Rightarrow> 'a cont) \<Rightarrow> 'a cont" where
  "cls_cap P k (prev, []) = None"
| "cls_cap P k (prev, c # cs) = (if P c then k c (Some c, cs) else None)"

text \<open>\<open>txt.match(re)\<close> for a pattern without the \<open>g\<close> flag: the match at the leftmost
  start index that has one; the end of the input is the last start index tried.\<close>

fun search :: "'a cont \<Rightarrow> ctx \<Rightarrow> 'a option" where
  "search m (prev, []) = m (prev, [])"
| "search m (prev, c # cs) =
     (case m (prev, c # cs) of Some r \<Rightarrow> Some r | None \<Rightarrow> search m (Some c, cs))"

definition match :: "'a cont \<Rightarrow> string \<Rightarrow> 'a option" where
  "match m txt = search m (None, txt)"

definition accept :: "unit cont" where
  "accept c = Some ()"

section \<open>The natural-language interpreter\<close>

text \<open>The patterns of \<open>parseNaturalLanguageQuery\<close>, in the order of the source.\<close>

text \<open>\<open>/\bsingle word\b/\<close>, \<open>/\b1 word\b/\<close> and \<open>/\bword_count=1\b/\<close>.\<close>

definition re_single_word :: "unit cont" where
  "re_single_word = wordb (lit ''single word'' (wordb accept))"

definition re_1_word :: "unit cont" where
  "re_1_word = wordb (lit ''1 word'' (wordb accept))"

definition re_word_count_1 :: "unit cont" where
  "re_word_count_1 = wordb (lit ''word_count=1'' (wordb accept))"

text \<open>\<open>/longer than (\d+)/\<close> and \<open>/shorter than (\d+)/\<close>; the result is group 1.\<close>

definition longerMatch :: "string \<Rightarrow> string option" where
  "longerMatch txt = match (lit ''longer than '' (rep1_cap is_digit (\<lambda>ds c. Some ds) [])) txt"

definition shorterMatch :: "string \<Rightarrow> string option" where
  "shorterMatch txt = match (lit ''shorter than '' (rep1_cap is_digit (\<lambda>ds c. Some ds) [])) txt"

text \<open>\<open>/\b(length|long) (\d+)\b/\<close>; the result is group 2.\<close>

definition lenMatch :: "string \<Rightarrow> string option" where
  "lenMatch txt =
     match (wordb (alt (lit ''length'') (lit ''long'')
              (lit '' '' (rep1_cap is_digit (\<lambda>ds. wordb (\<lambda>c. Some ds)) [])))) txt"

text \<open>\<open>/(contain|containing|contains)\s+(the\s+letter\s+)?([a-z0-9])/\<close>; the result is
  group 3.\<close>

definition containsMatch :: "string \<Rightarrow> char option" where
  "containsMatch txt =
     match (alt (lit ''contain'') (alt (lit ''containing'') (lit ''contains''))
              (rep1 is_space
                (opt (\<lambda>k. lit ''the'' (rep1 is_space (lit ''letter'' (rep1 is_space k))))
                  (cls_cap is_lower_alnum (\<lambda>ch c. Some ch))))) txt"

record criteria =
  is_palindrome :: "bool option"
  min_length :: "number option"
  max_length :: "number option"
  word_count :: "number option"
  contains_character :: "char option"

text \<open>The object \<open>{}\<close>: no key is set.\<close>

definition no_criteria :: criteria where
  "no_criteria =
     \<lparr> is_palindrome = None, min_length = None, max_length = None, word_count = None,
       contains_character = None \<rparr>"

text \<open>\<open>Object.keys(parsed).length\<close>.\<close>

definition keys_count :: "criteria \<Rightarrow> nat" where
  "keys_count p =
     length (filter (\<lambda>b. b)
       [is_palindrome p \<noteq> None, min_length p \<noteq> None, max_length p \<noteq> None,
        word_count p \<noteq> None, contains_character p \<noteq> None])"

text \<open>The seven conditional assignments to \<open>parsed\<close>, one definition each, on the
  lower-cased text \<open>txt\<close>.\<close>

definition set_palindrome :: "string \<Rightarrow> criteria \<Rightarrow> criteria" where
  "set_palindrome txt p =
     (if str_includes txt ''palindrom'' \<or> str_includes txt ''palindromic''
      then p\<lparr>is_palindrome := Some True\<rparr> else p)"

definition set_word_count :: "string \<Rightarrow> criteria \<Rightarrow> criteria" where
  "set_word_count txt p =
     (if match re_single_word txt \<noteq> None \<or> match re_1_word txt \<noteq> None \<or>
         match re_word_count_1 txt \<noteq> None
      then p\<lparr>word_count := Some (Num 1)\<rparr> else p)"

definition set_longer :: "string \<Rightarrow> criteria \<Rightarrow> criteria" where
  "set_longer txt p =
     (case longerMatch txt of
        None \<Rightarrow> p
      | Some ds \<Rightarrow> p\<lparr>min_length := Some (num_plus (parseInt ds) 1)\<rparr>)"

definition set_shorter :: "string \<Rightarrow> criteria \<Rightarrow> criteria" where
  "set_shorter txt p =
     (case shorterMatch txt of
        None \<Rightarrow> p
      | Some ds \<Rightarrow> p\<lparr>max_length := Some (num_plus (parseInt ds) (- 1))\<rparr>)"

definition set_len :: "string \<Rightarrow> criteria \<Rightarrow> criteria" where
  "set_len txt p =
     (case lenMatch txt of
        None \<Rightarrow> p
      | Some ds \<Rightarrow> p\<lparr>min_length := Some (parseInt ds), max_length := Some (parseInt ds)\<rparr>)"

definition set_contains :: "string \<Rightarrow> criteria \<Rightarrow> criteria" where
  "set_contains txt p =
     (case containsMatch txt of
        None \<Rightarrow> p
      | Some ch \<Rightarrow> p\<lparr>contains_character := Some ch\<rparr>)"

definition set_first_vowel :: "string \<Rightarrow> criteria \<Rightarrow> criteria" where
  "set_first_vowel txt p =
     (if str_includes txt ''first vowel'' then p\<lparr>contains_character := Some CHR ''a''\<rparr> else p)"

text \<open>\<open>parsed\<close> as it stands before the two checks at the end of the function.\<close>

definition parsed_of :: "string \<Rightarrow> criteria" where
  "parsed_of txt =
     set_first_vowel txt (set_contains txt (set_len txt (set_shorter txt (set_longer txt
       (set_word_count txt (set_palindrome txt no_criteria))))))"

text \<open>The three errors the function throws: \<open>'empty query'\<close>, \<open>'Unable to parse natural
  language query'\<close>, and \<open>'Query parsed but resulted in conflicting filters'\<close>, the only
  one with a \<open>code\<close> (422).\<close>

datatype parse_error = EmptyQuery | Unparseable | ConflictingFilters

definition conflicting :: "criteria \<Rightarrow> bool" where
  "conflicting p =
     (case min_length p of
        None \<Rightarrow> False
      | Some lo \<Rightarrow> (case max_length p of None \<Rightarrow> False | Some hi \<Rightarrow> num_less hi lo))"

definition parseNaturalLanguageQuery :: "string \<Rightarrow> parse_error + criteria" where
  "parseNaturalLanguageQuery q =
     (if q = [] then Inl EmptyQuery
      else let parsed = parsed_of (toLowerCase q) in
        if keys_count parsed = 0 then Inl Unparseable
        else if conflicting parsed then Inl ConflictingFilters
        else Inr parsed)"

section \<open>Percent-decoding\<close>

text \<open>
  \<open>decodeURIComponent\<close>, as ECMAScript defines it. Every \<open>%\<close> must be followed by two
  hexadecimal digits, which give an octet; an octet below 128 is a character, and an
  octet that starts a UTF-8 sequence of two to four octets must be followed by its
  continuation octets, each written as an escape of its own, and the sequence must be
  the well-formed UTF-8 encoding of a code point. Anything else throws \<open>URIError\<close>. A
  character that is not \<open>%\<close> is copied.

  The model decodes in two passes, escapes to octets first and octets to code points
  second; every failure is the same \<open>URIError\<close>, so the order in which failures are
  found does not show. The result is \<open>None\<close> for \<open>URIError\<close>, and otherwise the list of the
  code points of the decoded text.
\<close>

definition hex_value :: "char \<Rightarrow> int option" where
  "hex_value c =
     (if 48 \<le> code c \<and> code c \<le> 57 then Some (int (code c) - 48)
      else if 65 \<le> code c \<and> code c \<le> 70 then Some (int (code c) - 55)
      else if 97 \<le> code c \<and> code c \<le> 102 then Some (int (code c) - 87)
      else None)"

text \<open>A copied character, or the octet of an escape.\<close>

datatype uri_item = Unit char | Octet int

fun percent_items :: "string \<Rightarrow> uri_item list option" where
  "percent_items [] = Some []"
| "percent_items (c # cs) =
     (if c = CHR ''%''
      then (case cs of
              h1 # h2 # rest \<Rightarrow>
                (case hex_value h1 of
                   None \<Rightarrow> None
                 | Some a \<Rightarrow>
                     (case hex_value h2 of
                        None \<Rightarrow> None
                      | Some b \<Rightarrow> map_option (Cons (Octet (16 * a + b))) (percent_items rest)))
            | _ \<Rightarrow> None)
      else map_option (Cons (Unit c)) (percent_items cs))"

text \<open>The number of leading 1 bits of an octet, 5 standing for five or more.\<close>

definition lead_count :: "int \<Rightarrow> nat" where
  "lead_count b =
     (if b < 128 then 0 else if b < 192 then 1 else if b < 224 then 2
      else if b < 240 then 3 else if b < 248 then 4 else 5)"

definition octet_of :: "uri_item \<Rightarrow> int option" where
  "octet_of x = (case x of Unit c \<Rightarrow> None | Octet b \<Rightarrow> Some b)"

text \<open>The code point of a lead octet and its continuation octets, when they are
  well-formed UTF-8: continuation octets in \<open>80..BF\<close>, no overlong form, no surrogate,
  and nothing above U+10FFFF.\<close>

definition utf8_code_point :: "int \<Rightarrow> int list \<Rightarrow> int option" where
  "utf8_code_point b conts =
     (let n = Suc (length conts);
          v = foldl (\<lambda>a c. a * 64 + c mod 64) (b mod 2 ^ (7 - n)) conts;
          least = (if n = 2 then 128 else if n = 3 then 2048 else 65536)
      in if list_all (\<lambda>c. 128 \<le> c \<and> c < 192) conts \<and> least \<le> v \<and> v \<le> 1114111 \<and>
            \<not> (55296 \<le> v \<and> v \<le> 57343)
         then Some v else None)"

function utf8_items :: "uri_item list \<Rightarrow> int list option" where
  "utf8_items [] = Some []"
| "utf8_items (Unit c # xs) = map_option (Cons (of_char c)) (utf8_items xs)"
| "utf8_items (Octet b # xs) =
     (let n = lead_count b in
      if n = 0 then map_option (Cons b) (utf8_items xs)
      else if n = 1 \<or> 4 < n then None
      else (case those (map octet_of (take (n - 1) xs)) of
              None \<Rightarrow> None
            | Some conts \<Rightarrow>
                if length conts \<noteq> n - 1 then None
                else (case utf8_code_point b conts of
                        None \<Rightarrow> None
                      | Some v \<Rightarrow> map_option (Cons v) (utf8_items (drop (n - 1) xs)))))"
  by pat_completeness auto
termination
  by (relation "measure length") auto

definition decodeURIComponent :: "string \<Rightarrow> int list option" where
  "decodeURIComponent s = (case percent_items s of None \<Rightarrow> None | Some xs \<Rightarrow> utf8_items xs)"

text \<open>A decoded text is a string of the model when all its code points are below
  U+0100.\<close>

definition narrow :: "int list \<Rightarrow> string option" where
  "narrow cps = (if list_all (\<lambda>n. n < 256) cps then Some (map char_of cps) else None)"

section \<open>Records, the store and the request handlers\<close>

record string_record =
  rec_id :: string
  rec_value :: string
  rec_properties :: properties
  created_at :: string

text \<open>
  The store is the array \<open>db.strings\<close>, passed in and returned: \<open>readDB\<close> and \<open>writeDB\<close>
  load and save the whole array. A handler's answer is one of the responses below;
  \<open>Failure\<close> carries the HTTP status and the \<open>error\<close> text.

  A handler gets its path or query parameter from Express, which has percent-decoded
  the URL already; the two handlers that call \<open>decodeURIComponent\<close> decode that text once
  more. Their answer is \<open>None\<close> when the second decoding yields a code point above
  U+00FF: the program then goes on with a text that the strings of the model do not
  hold.
\<close>

datatype response =
    Created string_record
  | Found string_record
  | Listed "string_record list" nat criteria
  | Interpreted "string_record list" nat string criteria
  | Failure nat string

text \<open>The filter both list handlers apply to every record (the source repeats the same
  function body in the two handlers).\<close>

definition matches :: "criteria \<Rightarrow> string_record \<Rightarrow> bool" where
  "matches f r =
     (let p = rec_properties r in
      if (case is_palindrome f of None \<Rightarrow> False | Some b \<Rightarrow> prop_is_palindrome p \<noteq> b) then False
      else if (case min_length f of None \<Rightarrow> False
               | Some lo \<Rightarrow> num_less (Num (int (prop_length p))) lo) then False
      else if (case max_length f of None \<Rightarrow> False
               | Some hi \<Rightarrow> num_less hi (Num (int (prop_length p)))) then False
      else if (case word_count f of None \<Rightarrow> False
               | Some w \<Rightarrow> \<not> num_eq (Num (int (prop_word_count p))) w) then False
      else if (case contains_character f of None \<Rightarrow> False
               | Some ch \<Rightarrow> \<not> str_includes (rec_value r) [ch]) then False
      else True)"

text \<open>\<open>POST /strings\<close>, after \<open>requireValueField\<close> has let the request through.
  \<open>now\<close> is the time stamp \<open>new Date().toISOString()\<close>.\<close>

definition post_strings ::
  "(string \<Rightarrow> string) \<Rightarrow> string \<Rightarrow> string \<Rightarrow> string_record list \<Rightarrow> response \<times> string_record list"
where
  "post_strings sha256 now v db =
     (let props = analyzeString sha256 v; ident = sha256_hash props in
      case find (\<lambda>s. rec_id s = ident) db of
        Some found \<Rightarrow> (Failure 409 ''String already exists in the system'', db)
      | None \<Rightarrow>
          (let record = \<lparr> rec_id = ident, rec_value = v, rec_properties = props,
                           created_at = now \<rparr>
           in (Created record, db @ [record])))"

text \<open>\<open>GET /strings/:value\<close>; \<open>param\<close> is \<open>req.params.value\<close>. The whole handler body is
  inside \<open>try\<close>, so a \<open>URIError\<close> of \<open>decodeURIComponent\<close> is answered 500.\<close>

definition get_string ::
  "(string \<Rightarrow> string) \<Rightarrow> string \<Rightarrow> string_record list \<Rightarrow> response option"
where
  "get_string sha256 param db =
     (case decodeURIComponent param of
        None \<Rightarrow> Some (Failure 500 ''Internal server error'')
      | Some cps \<Rightarrow>
          (case narrow cps of
             None \<Rightarrow> None
           | Some rawValue \<Rightarrow>
               (case find (\<lambda>s. rec_id s = sha256 rawValue) db of
                  None \<Rightarrow> Some (Failure 404 ''String does not exist in the system'')
                | Some r \<Rightarrow> Some (Found r))))"

text \<open>\<open>GET /strings/filter-by-natural-language\<close>; \<open>q\<close> is \<open>req.query.query\<close>. The empty
  check and the echoed \<open>original\<close> use \<open>q\<close> itself, the interpreter gets
  \<open>decodeURIComponent(q)\<close>. Decoding and interpreting stand in one inner \<open>try\<close>: an error
  with code 422 is answered with its own message, and any other error, the \<open>URIError\<close>
  of the decoding included, with the fixed 400 message.\<close>

definition error_code :: "parse_error \<Rightarrow> nat option" where
  "error_code e = (case e of ConflictingFilters \<Rightarrow> Some 422 | EmptyQuery \<Rightarrow> None | Unparseable \<Rightarrow> None)"

definition error_message :: "parse_error \<Rightarrow> string" where
  "error_message e =
     (case e of
        EmptyQuery \<Rightarrow> ''empty query''
      | Unparseable \<Rightarrow> ''Unable to parse natural language query''
      | ConflictingFilters \<Rightarrow> ''Query parsed but resulted in conflicting filters'')"

definition filter_by_natural_language :: "string \<Rightarrow> string_record list \<Rightarrow> response option" where
  "filter_by_natural_language q db =
     (if q = [] then Some (Failure 400 ''query parameter is required'')
      else case decodeURIComponent q of
        None \<Rightarrow> Some (Failure 400 ''Unable to parse natural language query'')
      | Some cps \<Rightarrow>
          (case narrow cps of
             None \<Rightarrow> None
           | Some phrase \<Rightarrow>
               (case parseNaturalLanguageQuery phrase of
                  Inl e \<Rightarrow>
                    (if error_code e = Some 422 then Some (Failure 422 (error_message e))
                     else Some (Failure 400 ''Unable to parse natural language query''))
                | Inr f \<Rightarrow>
                    (let results = filter (matches f) db
                     in Some (Interpreted results (length results) q f)))))"

text \<open>\<open>GET /strings\<close>. A query parameter is absent (\<open>None\<close>) or a string. The five
  blocks that fill \<open>filters\<close> run in the order of the source, and the first one that
  rejects its parameter answers 400 with its message.\<close>

definition build_filters ::
  "string option \<Rightarrow> string option \<Rightarrow> string option \<Rightarrow> string option \<Rightarrow> string option \<Rightarrow>
   string + criteria"
where
  "build_filters q_is_palindrome q_min_length q_max_length q_word_count q_contains_character =
     (let f0 = no_criteria in
      case (case q_is_palindrome of
              None \<Rightarrow> Inr f0
            | Some v \<Rightarrow>
                if toLowerCase v \<noteq> ''true'' \<and> toLowerCase v \<noteq> ''false''
                then Inl ''is_palindrome must be true or false''
                else Inr (f0\<lparr>is_palindrome := Some (toLowerCase v = ''true'')\<rparr>)) of
        Inl e \<Rightarrow> Inl e
      | Inr f1 \<Rightarrow>
      case (case q_min_length of
              None \<Rightarrow> Inr f1
            | Some v \<Rightarrow>
                if parseInt v = NaN then Inl ''min_length must be integer''
                else Inr (f1\<lparr>min_length := Some (parseInt v)\<rparr>)) of
        Inl e \<Rightarrow> Inl e
      | Inr f2 \<Rightarrow>
      case (case q_max_length of
              None \<Rightarrow> Inr f2
            | Some v \<Rightarrow>
                if parseInt v = NaN then Inl ''max_length must be integer''
                else Inr (f2\<lparr>max_length := Some (parseInt v)\<rparr>)) of
        Inl e \<Rightarrow> Inl e
      | Inr f3 \<Rightarrow>
      case (case q_word_count of
              None \<Rightarrow> Inr f3
            | Some v \<Rightarrow>
                if parseInt v = NaN then Inl ''word_count must be integer''
                else Inr (f3\<lparr>word_count := Some (parseInt v)\<rparr>)) of
        Inl e \<Rightarrow> Inl e
      | Inr f4 \<Rightarrow>
          (case q_contains_character of
             None \<Rightarrow> Inr f4
           | Some cc \<Rightarrow>
               if length cc \<noteq> 1 then Inl ''contains_character must be a single character string''
               else Inr (f4\<lparr>contains_character := Some (hd cc)\<rparr>)))"

definition list_strings ::
  "string option \<Rightarrow> string option \<Rightarrow> string option \<Rightarrow> string option \<Rightarrow> string option \<Rightarrow>
   string_record list \<Rightarrow> response"
where
  "list_strings q_is_palindrome q_min_length q_max_length q_word_count q_contains_character db =
     (case build_filters q_is_palindrome q_min_length q_max_length q_word_count
             q_contains_character of
        Inl e \<Rightarrow> Failure 400 e
      | Inr filters \<Rightarrow>
          (let results = filter (matches filters) db in Listed results (length results) filters))"

section \<open>The patterns in the words of the specification\<close>

text \<open>
  The specification lists seven recognised patterns, all matched case-insensitively,
  that is against the lower-cased phrase: (1) the token \<open>palindrom\<close>; (2) \<open>single word\<close> or
  \<open>1 word\<close> at phrase boundaries; (3) \<open>longer than N\<close>; (4) \<open>shorter than N\<close>; (5) \<open>length N\<close>
  or \<open>long N\<close>; (6) \<open>contain\<close>, \<open>containing\<close> or \<open>contains\<close>, optionally followed by
  \<open>the letter\<close>, then a single alphanumeric character; (7) \<open>first vowel\<close>. The predicates
  below state them over the text itself, by the places where they occur; none of them
  uses the matchers of the interpreter.
\<close>

text \<open>\<open>somewhere P s\<close>: the string can be cut in two, in what stands before a position
  and what stands after it, so that \<open>P\<close> holds of the two parts.\<close>

definition somewhere :: "(string \<Rightarrow> string \<Rightarrow> bool) \<Rightarrow> string \<Rightarrow> bool" where
  "somewhere P s = list_ex (\<lambda>i. P (take i s) (drop i s)) [0..<Suc (length s)]"

text \<open>The first character of a string has a property; the last one has it.\<close>

definition starts_with :: "(char \<Rightarrow> bool) \<Rightarrow> string \<Rightarrow> bool" where
  "starts_with P s = (case s of [] \<Rightarrow> False | c # cs \<Rightarrow> P c)"

definition ends_with :: "(char \<Rightarrow> bool) \<Rightarrow> string \<Rightarrow> bool" where
  "ends_with P s = (s \<noteq> [] \<and> P (last s))"

text \<open>Patterns 1 and 7, a token and a phrase that the text contains.\<close>

definition spec_token :: "string \<Rightarrow> string \<Rightarrow> bool" where
  "spec_token w txt = sublist w txt"

text \<open>Pattern 2, a phrase at phrase boundaries: no word character stands right before it
  or right after it.\<close>

definition spec_bounded_phrase :: "string \<Rightarrow> string \<Rightarrow> bool" where
  "spec_bounded_phrase w txt =
     somewhere (\<lambda>pre post. \<not> ends_with is_word_char pre \<and> prefix w post \<and>
       \<not> starts_with is_word_char (drop (length w) post)) txt"

text \<open>Patterns 3, 4 and 5, words followed by a space and a number, that is by a digit.\<close>

definition spec_words_number :: "string \<Rightarrow> string \<Rightarrow> bool" where
  "spec_words_number w txt =
     somewhere (\<lambda>pre post. prefix (w @ '' '') post \<and>
       starts_with is_digit (drop (length w + 1) post)) txt"

text \<open>Pattern 6: \<open>contain\<close>, \<open>containing\<close> or \<open>contains\<close>, optionally followed by \<open>the letter\<close>,
  then one alphanumeric character of the lower-cased text; the words are separated by
  white space. \<open>spec_after_contain\<close> describes what follows the first word.\<close>

definition spec_after_contain :: "string \<Rightarrow> bool" where
  "spec_after_contain r =
     (let r1 = dropWhile is_space r in
      starts_with is_space r \<and>
      (starts_with is_lower_alnum r1 \<or>
       (prefix ''the'' r1 \<and>
        (let r2 = drop 3 r1; r3 = dropWhile is_space r2 in
         starts_with is_space r2 \<and> prefix ''letter'' r3 \<and>
         (let r4 = drop 6 r3; r5 = dropWhile is_space r4 in
          starts_with is_space r4 \<and> starts_with is_lower_alnum r5)))))"

definition spec_contains :: "string \<Rightarrow> bool" where
  "spec_contains txt =
     somewhere (\<lambda>pre post.
       list_ex (\<lambda>w. prefix w post \<and> spec_after_contain (drop (length w) post))
         [''contain'', ''containing'', ''contains'']) txt"

text \<open>One of the seven patterns of the specification matches somewhere in the text.\<close>

definition spec_patterns_match :: "string \<Rightarrow> bool" where
  "spec_patterns_match txt =
     (spec_token ''palindrom'' txt \<or>
      (spec_bounded_phrase ''single word'' txt \<or> spec_bounded_phrase ''1 word'' txt) \<or>
      spec_words_number ''longer than'' txt \<or>
      spec_words_number ''shorter than'' txt \<or>
      (spec_words_number ''length'' txt \<or> spec_words_number ''long'' txt) \<or>
      spec_contains txt \<or>
      spec_token ''first vowel'' txt)"

text \<open>Pattern 5 at word boundaries: \<open>length\<close> or \<open>long\<close> does not follow a word character,
  and the digits after the space are not followed by a word character (a letter or an
  underscore; a further digit belongs to the number).\<close>

definition bounded_length_number :: "string \<Rightarrow> bool" where
  "bounded_length_number txt =
     somewhere (\<lambda>pre post. \<not> ends_with is_word_char pre \<and>
       list_ex (\<lambda>w. prefix (w @ '' '') post \<and>
           starts_with is_digit (drop (length w + 1) post) \<and>
           \<not> starts_with is_word_char (dropWhile is_digit (drop (length w + 1) post)))
         [''length'', ''long'']) txt"

text \<open>The seven patterns with pattern 5 at word boundaries, and the token \<open>word_count=1\<close>
  at phrase boundaries as an eighth.\<close>

definition recognised :: "string \<Rightarrow> bool" where
  "recognised txt =
     (spec_token ''palindrom'' txt \<or>
      (spec_bounded_phrase ''single word'' txt \<or> spec_bounded_phrase ''1 word'' txt \<or>
       spec_bounded_phrase ''word_count=1'' txt) \<or>
      spec_words_number ''longer than'' txt \<or>
      spec_words_number ''shorter than'' txt \<or>
      bounded_length_number txt \<or>
      spec_contains txt \<or>
      spec_token ''first vowel'' txt)"

section \<open>Runs of non-white-space characters\<close>

text \<open>
  The specification's word count: the number of maximal runs of non-white-space
  characters in a string. A maximal run is counted at its first index: the character
  there is not white space, and it is the first character or follows white space.
\<close>

definition count_nonws_runs :: "string \<Rightarrow> nat" where
  "count_nonws_runs s =
     length (filter (\<lambda>i. \<not> is_space (s ! i) \<and> (i = 0 \<or> is_space (s ! (i - 1))))
       [0..<length s])"

text \<open>The same count in one pass; the flag says that a run may start at the head of
  the list, which is so at the start of the string and after white space.\<close>

fun runs :: "bool \<Rightarrow> string \<Rightarrow> nat" where
  "runs b [] = 0"
| "runs b (c # cs) =
     (if is_space c then runs True cs else (if b then 1 else 0) + runs False cs)"

section \<open>Properties of the analyzer\<close>

text \<open>
  Claim C5. \<open>analyzeString\<close> on \<open>"racecar"\<close> returns length 7, \<open>is_palindrome\<close> true,
  4 unique characters, word count 1 and the character frequency map
  \<open>{r: 2, a: 2, c: 2, e: 1}\<close>, whatever the digest function is.
\<close>

theorem analyze_racecar:
  "prop_length (analyzeString sha256 ''racecar'') = 7 \<and>
   prop_is_palindrome (analyzeString sha256 ''racecar'') = True \<and>
   unique_characters (analyzeString sha256 ''racecar'') = 4 \<and>
   prop_word_count (analyzeString sha256 ''racecar'') = 1 \<and>
   character_frequency_map (analyzeString sha256 ''racecar'') =
     [(CHR ''r'', 2), (CHR ''a'', 2), (CHR ''c'', 2), (CHR ''e'', 1)] \<and>
   sha256_hash (analyzeString sha256 ''racecar'') = sha256 ''racecar''"
  by (simp add: analyzeString_def charFrequencyMap_def bump_def isPalindrome_def
      toLowerCase_def to_lower_char_def trim_def is_space_def code_def Let_def)

section \<open>Facts about percent-decoding\<close>

lemma percent_items_plain: "CHR ''%'' \<notin> set s \<Longrightarrow> percent_items s = Some (map Unit s)"
  by (induction s) auto

lemma utf8_items_units: "utf8_items (map Unit s) = Some (map of_char s)"
  by (induction s) auto

lemma decode_plain: "CHR ''%'' \<notin> set s \<Longrightarrow> decodeURIComponent s = Some (map of_char s)"
  by (simp add: decodeURIComponent_def percent_items_plain utf8_items_units)

lemma of_char_less_256: "(of_char c :: int) < 256"
proof -
  have "(of_char c :: int) mod 256 < 256" by (rule pos_mod_bound) simp
  then show ?thesis by (simp only: of_char_mod_256)
qed

lemma narrow_chars: "narrow (map of_char s) = Some s"
  by (simp add: narrow_def list_all_iff o_def of_char_less_256)

section \<open>Facts about the matchers\<close>

lemma lit_Some_iff:
  "lit w k (p, s) = Some r \<longleftrightarrow>
   (\<exists>t. s = w @ t \<and> k (if w = [] then p else Some (last w), t) = Some r)"
  by (auto simp: prefix_def)

lemma lit_SomeD: "lit w k c = Some r \<Longrightarrow> \<exists>c'. k c' = Some r"
  by (cases c) (auto split: if_splits)

lemma alt_SomeD: "alt m1 m2 k c = Some r \<Longrightarrow> m1 k c = Some r \<or> m2 k c = Some r"
  by (auto simp: alt_def split: option.splits)

lemma opt_SomeD: "opt m k c = Some r \<Longrightarrow> m k c = Some r \<or> k c = Some r"
  by (auto simp: opt_def split: option.splits)

lemma rep1_SomeD: "rep1 P k c = Some r \<Longrightarrow> \<exists>c'. k c' = Some r"
  by (induction P k c rule: rep1.induct) (auto split: if_splits option.splits)

lemma cls_cap_SomeD: "cls_cap P (\<lambda>ch c. Some ch) c = Some r \<Longrightarrow> P r"
  by (induction P "\<lambda>(ch::char) (c::ctx). Some ch" c rule: cls_cap.induct) (auto split: if_splits)

lemma search_SomeD:
  "search m (p, s) = Some r \<Longrightarrow>
   \<exists>pre t. s = pre @ t \<and> m (if pre = [] then p else Some (last pre), t) = Some r"
proof (induction s arbitrary: p)
  case Nil
  then show ?case by simp
next
  case (Cons c cs)
  show ?case
  proof (cases "m (p, c # cs)")
    case (Some a)
    with Cons.prems have "m (p, c # cs) = Some r" by simp
    then have "c # cs = [] @ (c # cs) \<and> m (if [] = [] then p else Some (last []), c # cs) = Some r"
      by simp
    then show ?thesis by blast
  next
    case None
    with Cons.prems have "search m (Some c, cs) = Some r" by simp
    from Cons.IH [OF this] obtain pre t where
      "cs = pre @ t" "m (if pre = [] then Some c else Some (last pre), t) = Some r" by blast
    then have "c # cs = (c # pre) @ t \<and>
        m (if c # pre = [] then p else Some (last (c # pre)), t) = Some r"
      by (cases pre) auto
    then show ?thesis by blast
  qed
qed

lemma search_complete:
  "m (if pre = [] then p else Some (last pre), t) \<noteq> None \<Longrightarrow> search m (p, pre @ t) \<noteq> None"
proof (induction pre arbitrary: p)
  case Nil
  then show ?case by (cases t) (auto split: option.splits)
next
  case (Cons c pre)
  have "m (if pre = [] then Some c else Some (last pre), t) \<noteq> None"
    using Cons.prems by (cases pre) auto
  from Cons.IH [OF this] show ?case by (auto split: option.splits)
qed

lemma rep1_cap_all:
  "rep1_cap P (\<lambda>ds c. Some ds) acc (p, s) =
     (if takeWhile P s = [] then None else Some (acc @ takeWhile P s))"
  by (induction s arbitrary: acc p) auto

lemma rep1_cap_SomeD:
  "rep1_cap P k acc (p, s) = Some r \<Longrightarrow>
   \<exists>ds t. ds \<noteq> [] \<and> list_all P ds \<and> s = ds @ t \<and> k (acc @ ds) (Some (last ds), t) = Some r"
proof (induction s arbitrary: acc p)
  case Nil
  then show ?case by simp
next
  case (Cons c cs)
  from Cons.prems have c: "P c" by (auto split: if_splits)
  show ?case
  proof (cases "rep1_cap P k (acc @ [c]) (Some c, cs)")
    case None
    with Cons.prems c have "k (acc @ [c]) (Some (last [c]), cs) = Some r" by simp
    with c have "[c] \<noteq> [] \<and> list_all P [c] \<and> c # cs = [c] @ cs \<and>
        k (acc @ [c]) (Some (last [c]), cs) = Some r" by simp
    then show ?thesis by blast
  next
    case (Some a)
    with Cons.prems c have "rep1_cap P k (acc @ [c]) (Some c, cs) = Some r" by simp
    from Cons.IH [OF this] obtain ds t where
      "ds \<noteq> []" "list_all P ds" "cs = ds @ t" "k ((acc @ [c]) @ ds) (Some (last ds), t) = Some r"
      by blast
    with c have "c # ds \<noteq> [] \<and> list_all P (c # ds) \<and> c # cs = (c # ds) @ t \<and>
        k (acc @ (c # ds)) (Some (last (c # ds)), t) = Some r" by simp
    then show ?thesis by blast
  qed
qed

lemma containsMatch_class: "containsMatch txt = Some ch \<Longrightarrow> is_lower_alnum ch"
  unfolding containsMatch_def match_def
  by (auto dest!: search_SomeD alt_SomeD lit_SomeD rep1_SomeD opt_SomeD cls_cap_SomeD)

section \<open>Facts about the interpreter\<close>

lemmas set_defs = set_palindrome_def set_word_count_def set_longer_def set_shorter_def
  set_len_def set_contains_def set_first_vowel_def

lemma parsed_is_palindrome:
  "is_palindrome (parsed_of txt) =
     (if str_includes txt ''palindrom'' \<or> str_includes txt ''palindromic'' then Some True else None)"
  by (simp add: parsed_of_def set_defs no_criteria_def split: option.splits)

lemma parsed_word_count:
  "word_count (parsed_of txt) =
     (if match re_single_word txt \<noteq> None \<or> match re_1_word txt \<noteq> None \<or>
         match re_word_count_1 txt \<noteq> None
      then Some (Num 1) else None)"
  by (simp add: parsed_of_def set_defs no_criteria_def split: option.splits)

lemma parsed_min_length:
  "min_length (parsed_of txt) =
     (case lenMatch txt of
        Some ds \<Rightarrow> Some (parseInt ds)
      | None \<Rightarrow> (case longerMatch txt of
                   Some ds \<Rightarrow> Some (num_plus (parseInt ds) 1)
                 | None \<Rightarrow> None))"
  by (simp add: parsed_of_def set_defs no_criteria_def split: option.splits)

lemma parsed_max_length:
  "max_length (parsed_of txt) =
     (case lenMatch txt of
        Some ds \<Rightarrow> Some (parseInt ds)
      | None \<Rightarrow> (case shorterMatch txt of
                   Some ds \<Rightarrow> Some (num_plus (parseInt ds) (- 1))
                 | None \<Rightarrow> None))"
  by (simp add: parsed_of_def set_defs no_criteria_def split: option.splits)

lemma parsed_contains_character:
  "contains_character (parsed_of txt) =
     (if str_includes txt ''first vowel'' then Some CHR ''a'' else containsMatch txt)"
  by (simp add: parsed_of_def set_defs no_criteria_def split: option.splits)

lemma keys_count_0:
  "keys_count p = 0 \<longleftrightarrow>
   is_palindrome p = None \<and> min_length p = None \<and> max_length p = None \<and>
   word_count p = None \<and> contains_character p = None"
  by (simp add: keys_count_def)

lemma code_char_of: "n < 256 \<Longrightarrow> code (char_of n) = n"
  by (simp add: code_def)

lemma to_lower_char_idem: "to_lower_char (to_lower_char c) = to_lower_char c"
  by (auto simp: to_lower_char_def code_char_of)

lemma toLowerCase_idem: "toLowerCase (toLowerCase q) = toLowerCase q"
  by (simp add: toLowerCase_def to_lower_char_idem)

lemma toLowerCase_Nil: "toLowerCase q = [] \<longleftrightarrow> q = []"
  by (simp add: toLowerCase_def)

lemma sublist_toLowerCase:
  assumes "sublist w q" and "toLowerCase w = w"
  shows "sublist w (toLowerCase q)"
proof -
  from assms(1) obtain ps ss where "q = ps @ w @ ss" by (auto simp: sublist_def)
  then have "toLowerCase q = toLowerCase ps @ w @ toLowerCase ss"
    using assms(2) by (simp add: toLowerCase_def)
  then show ?thesis by (auto simp: sublist_def)
qed

lemma is_lower_alnum_fixed: "is_lower_alnum c \<Longrightarrow> to_lower_char c = c"
  by (auto simp: is_lower_alnum_def to_lower_char_def)

lemma str_includes_single: "str_includes s [ch] \<longleftrightarrow> ch \<in> set s"
  by (auto simp: str_includes_def sublist_def in_set_conv_decomp)

lemma lower_first_vowel: "toLowerCase ''first vowel'' = ''first vowel''"
  by (simp add: toLowerCase_def to_lower_char_def code_def)

lemma parse_lower: "parseNaturalLanguageQuery (toLowerCase q) = parseNaturalLanguageQuery q"
  by (simp add: parseNaturalLanguageQuery_def toLowerCase_idem toLowerCase_Nil)

lemma parse_InrD:
  "parseNaturalLanguageQuery q = Inr f \<Longrightarrow> f = parsed_of (toLowerCase q) \<and> \<not> conflicting f \<and> q \<noteq> []"
  by (auto simp: parseNaturalLanguageQuery_def Let_def split: if_splits)

section \<open>The first vowel\<close>

text \<open>
  Claim C8. For every phrase that contains \<open>first vowel\<close>, the criteria the interpreter
  composes have \<open>contains_character = 'a'\<close>, and so have the criteria it returns; the
  phrase is never unparseable. This holds also when the contain pattern matched and
  wrote another character first, as in \<open>"palindromic strings that contain the first
  vowel"\<close>.
\<close>

theorem interpret_first_vowel:
  assumes "str_includes q ''first vowel''"
  shows "contains_character (parsed_of (toLowerCase q)) = Some CHR ''a'' \<and>
         (\<forall>f. parseNaturalLanguageQuery q = Inr f \<longrightarrow> contains_character f = Some CHR ''a'') \<and>
         parseNaturalLanguageQuery q \<noteq> Inl Unparseable \<and>
         parseNaturalLanguageQuery q \<noteq> Inl EmptyQuery"
proof -
  from assms have "str_includes (toLowerCase q) ''first vowel''"
    unfolding str_includes_def by (rule sublist_toLowerCase) (rule lower_first_vowel)
  then have a: "contains_character (parsed_of (toLowerCase q)) = Some CHR ''a''"
    by (simp add: parsed_contains_character)
  then have k: "keys_count (parsed_of (toLowerCase q)) \<noteq> 0"
    by (simp add: keys_count_0)
  from assms have ne: "q \<noteq> []" by (auto simp: str_includes_def)
  from a k ne show ?thesis
    by (auto simp: parseNaturalLanguageQuery_def Let_def split: if_splits)
qed

theorem interpret_first_vowel_witness:
  "str_includes ''palindromic strings that contain the first vowel'' ''first vowel'' \<and>
   containsMatch ''palindromic strings that contain the first vowel'' = Some CHR ''t'' \<and>
   parseNaturalLanguageQuery ''palindromic strings that contain the first vowel'' =
     Inr (no_criteria\<lparr>is_palindrome := Some True, contains_character := Some CHR ''a''\<rparr>)"
proof -
  have h: "str_includes ''palindromic strings that contain the first vowel'' ''first vowel''"
    by code_simp
  have m: "containsMatch ''palindromic strings that contain the first vowel'' = Some CHR ''t''"
    by code_simp
  have p: "parseNaturalLanguageQuery ''palindromic strings that contain the first vowel'' =
     Inr (no_criteria\<lparr>is_palindrome := Some True, contains_character := Some CHR ''a''\<rparr>)"
    by code_simp
  from interpret_first_vowel [OF h] h m p show ?thesis by simp
qed

section \<open>Integer parameters of the structured list\<close>

text \<open>
  Claim C6 (a defect of the code). \<open>parseInt\<close> reads the longest numeric prefix and
  ignores the rest, so \<open>min_length=12abc\<close> is accepted as 12, and \<open>7 days\<close> and \<open>1.5\<close>
  are accepted as 7 and 1; only a token with no leading digit is rejected with the
  message that the field must be integer.
\<close>

theorem numeric_prefix_accepted:
  "parseInt ''12abc'' = Num 12 \<and>
   build_filters None (Some ''12abc'') None None None =
     Inr (no_criteria\<lparr>min_length := Some (Num 12)\<rparr>) \<and>
   list_strings None (Some ''12abc'') None None None [] =
     Listed [] 0 (no_criteria\<lparr>min_length := Some (Num 12)\<rparr>) \<and>
   build_filters None None (Some ''7 days'') (Some ''1.5'') None =
     Inr (no_criteria\<lparr>max_length := Some (Num 7), word_count := Some (Num 1)\<rparr>) \<and>
   build_filters None (Some ''abc'') None None None = Inl ''min_length must be integer''"
  by code_simp

section \<open>The last assignment wins\<close>

lemma num_less_irrefl: "\<not> num_less x x"
  by (cases x) auto

lemma lower_longer_than_20: "toLowerCase ''longer than 20'' = ''longer than 20''"
  by (simp add: toLowerCase_def to_lower_char_def code_def)

lemma longerMatch_complete:
  assumes "str_includes q ''longer than 20''"
  shows "longerMatch (toLowerCase q) \<noteq> None"
proof -
  from assms have "sublist ''longer than 20'' (toLowerCase q)"
    unfolding str_includes_def by (rule sublist_toLowerCase) (rule lower_longer_than_20)
  then obtain ps ss where t: "toLowerCase q = ps @ ''longer than 20'' @ ss"
    by (auto simp: sublist_def)
  have "lit ''longer than '' (rep1_cap is_digit (\<lambda>ds c. Some ds) [])
      (if ps = [] then None else Some (last ps), ''longer than 20'' @ ss) \<noteq> None"
    by (simp add: rep1_cap_all is_digit_def code_def)
  then show ?thesis
    unfolding longerMatch_def match_def t by (rule search_complete)
qed

lemma lenMatch_success:
  assumes "q \<noteq> []" and "lenMatch (toLowerCase q) = Some ds"
  shows "parseNaturalLanguageQuery q = Inr (parsed_of (toLowerCase q))"
proof -
  from assms(2) have m: "min_length (parsed_of (toLowerCase q)) = Some (parseInt ds)"
    and x: "max_length (parsed_of (toLowerCase q)) = Some (parseInt ds)"
    by (simp_all add: parsed_min_length parsed_max_length)
  from m have "keys_count (parsed_of (toLowerCase q)) \<noteq> 0"
    by (simp add: keys_count_0)
  moreover from m x have "\<not> conflicting (parsed_of (toLowerCase q))"
    by (simp add: conflicting_def num_less_irrefl)
  ultimately show ?thesis using assms(1)
    by (simp add: parseNaturalLanguageQuery_def Let_def)
qed

text \<open>
  Claim C4. \<open>"length 10"\<close> is interpreted as exactly \<open>{min_length: 10, max_length: 10}\<close>.
  For every phrase that contains both \<open>length 10\<close> and \<open>longer than 20\<close>, the longer
  pattern matches, so the phrase is never unparseable, and the \<open>min_length\<close> of the
  result is one single value, the one written last: the number of the length/long
  pattern when that pattern matches (then \<open>max_length\<close> is the same number and the
  interpretation succeeds), and otherwise the number of the longer pattern plus one.
  The assignments run in the order of the source, whatever the order in the phrase.
\<close>

theorem length_overwrites_longer:
  "parseNaturalLanguageQuery ''length 10'' =
     Inr (no_criteria\<lparr>min_length := Some (Num 10), max_length := Some (Num 10)\<rparr>) \<and>
   (str_includes q ''length 10'' \<and> str_includes q ''longer than 20'' \<longrightarrow>
      longerMatch (toLowerCase q) \<noteq> None \<and>
      parseNaturalLanguageQuery q \<noteq> Inl Unparseable \<and>
      parseNaturalLanguageQuery q \<noteq> Inl EmptyQuery \<and>
      (\<forall>ds. lenMatch (toLowerCase q) = Some ds \<longrightarrow>
         (\<exists>f. parseNaturalLanguageQuery q = Inr f \<and>
              min_length f = Some (parseInt ds) \<and> max_length f = Some (parseInt ds))) \<and>
      (\<forall>f. parseNaturalLanguageQuery q = Inr f \<longrightarrow>
         min_length f =
           (case lenMatch (toLowerCase q) of
              Some ds \<Rightarrow> Some (parseInt ds)
            | None \<Rightarrow> map_option (\<lambda>ds. num_plus (parseInt ds) 1) (longerMatch (toLowerCase q)))))"
proof (intro conjI impI allI)
  show "parseNaturalLanguageQuery ''length 10'' =
     Inr (no_criteria\<lparr>min_length := Some (Num 10), max_length := Some (Num 10)\<rparr>)"
    by code_simp
next
  assume h: "str_includes q ''length 10'' \<and> str_includes q ''longer than 20''"
  then show lm: "longerMatch (toLowerCase q) \<noteq> None"
    by (simp add: longerMatch_complete)
  from h have ne: "q \<noteq> []" by (auto simp: str_includes_def)
  from lm have "min_length (parsed_of (toLowerCase q)) \<noteq> None"
    by (auto simp: parsed_min_length split: option.splits)
  then have k: "keys_count (parsed_of (toLowerCase q)) \<noteq> 0"
    by (simp add: keys_count_0)
  from k ne show "parseNaturalLanguageQuery q \<noteq> Inl Unparseable"
    by (simp add: parseNaturalLanguageQuery_def Let_def)
  from ne show "parseNaturalLanguageQuery q \<noteq> Inl EmptyQuery"
    by (simp add: parseNaturalLanguageQuery_def Let_def)
  show "\<exists>f. parseNaturalLanguageQuery q = Inr f \<and>
      min_length f = Some (parseInt ds) \<and> max_length f = Some (parseInt ds)"
    if "lenMatch (toLowerCase q) = Some ds" for ds
    using lenMatch_success [OF ne that] that
    by (simp add: parsed_min_length parsed_max_length)
  show "min_length f =
      (case lenMatch (toLowerCase q) of
         Some ds \<Rightarrow> Some (parseInt ds)
       | None \<Rightarrow> map_option (\<lambda>ds. num_plus (parseInt ds) 1) (longerMatch (toLowerCase q)))"
    if "parseNaturalLanguageQuery q = Inr f" for f
    using parse_InrD [OF that]
    by (auto simp: parsed_min_length split: option.splits)
qed

theorem length_overwrites_longer_witness:
  "str_includes ''length 10 and longer than 20'' ''length 10'' \<and>
   str_includes ''length 10 and longer than 20'' ''longer than 20'' \<and>
   lenMatch ''length 10 and longer than 20'' = Some ''10'' \<and>
   longerMatch ''length 10 and longer than 20'' = Some ''20'' \<and>
   parseNaturalLanguageQuery ''length 10 and longer than 20'' =
     Inr (no_criteria\<lparr>min_length := Some (Num 10), max_length := Some (Num 10)\<rparr>) \<and>
   parseNaturalLanguageQuery ''longer than 20 and length 10'' =
     Inr (no_criteria\<lparr>min_length := Some (Num 10), max_length := Some (Num 10)\<rparr>)"
proof -
  let ?q = "''length 10 and longer than 20''"
  have h: "str_includes ?q ''length 10'' \<and> str_includes ?q ''longer than 20''"
    by code_simp
  have l: "lenMatch (toLowerCase ?q) = Some ''10''" "toLowerCase ?q = ?q"
    "longerMatch ?q = Some ''20''" "parseInt ''10'' = Num 10"
    by code_simp+
  have r: "parseNaturalLanguageQuery ''longer than 20 and length 10'' =
     Inr (no_criteria\<lparr>min_length := Some (Num 10), max_length := Some (Num 10)\<rparr>)"
    by code_simp
  from length_overwrites_longer [of ?q] h l(1) obtain f where
    f: "parseNaturalLanguageQuery ?q = Inr f"
      "min_length f = Some (parseInt ''10'')" "max_length f = Some (parseInt ''10'')"
    by blast
  have "parsed_of (toLowerCase ?q) =
      no_criteria\<lparr>min_length := min_length f, max_length := max_length f\<rparr>"
    unfolding f l by code_simp
  with f have "parseNaturalLanguageQuery ?q =
     Inr (no_criteria\<lparr>min_length := Some (Num 10), max_length := Some (Num 10)\<rparr>)"
    by (auto simp: l dest: parse_InrD)
  with h l r show ?thesis by simp
qed

section \<open>The numbers of the length patterns\<close>

lemma digits_value_foldl_nonneg:
  "list_all is_digit ds \<Longrightarrow> 0 \<le> a \<Longrightarrow> 0 \<le> foldl (\<lambda>a c. 10 * a + (int (code c) - 48)) a ds"
  by (induction ds arbitrary: a) (auto simp: is_digit_def)

lemma digits_value_nonneg: "list_all is_digit ds \<Longrightarrow> 0 \<le> digits_value ds"
  by (simp add: digits_value_def digits_value_foldl_nonneg)

lemma to_number_exact: "\<bar>x\<bar> \<le> 2 ^ 53 \<Longrightarrow> to_number x = Num x"
  by (auto simp: to_number_def round53_def Let_def)

lemma digit_not_space: "is_digit c \<Longrightarrow> \<not> is_space c"
  by (auto simp: is_digit_def is_space_def)

lemma digit_not_sign: "is_digit c \<Longrightarrow> c \<noteq> CHR ''-'' \<and> c \<noteq> CHR ''+''"
  by (auto simp: is_digit_def code_def)

lemma parseInt_digits:
  assumes "ds \<noteq> []" and "list_all is_digit ds"
  shows "parseInt ds = to_number (digits_value ds)"
proof -
  from assms obtain c cs where ds: "ds = c # cs" and c: "is_digit c"
    by (cases ds) auto
  from assms(2) ds have "\<forall>x\<in>set cs. is_digit x"
    by (simp add: list_all_iff)
  with ds c show ?thesis
    by (simp add: parseInt_def Let_def digit_not_space digit_not_sign
        takeWhile_eq_all_conv [THEN iffD2])
qed

lemma parseInt_safe:
  assumes "ds \<noteq> []" and "list_all is_digit ds" and "digits_value ds < 2 ^ 53"
  shows "parseInt ds = Num (digits_value ds)"
    and "to_number (digits_value ds + 1) = Num (digits_value ds + 1)"
    and "to_number (digits_value ds - 1) = Num (digits_value ds - 1)"
proof -
  from assms(2) have nn: "0 \<le> digits_value ds" by (rule digits_value_nonneg)
  with assms(3) show "parseInt ds = Num (digits_value ds)"
    by (simp add: parseInt_digits [OF assms(1,2)] to_number_exact)
  from nn assms(3) show "to_number (digits_value ds + 1) = Num (digits_value ds + 1)"
    by (simp add: to_number_exact)
  from nn assms(3) show "to_number (digits_value ds - 1) = Num (digits_value ds - 1)"
    by (simp add: to_number_exact)
qed

lemma than_match_shape:
  assumes "match (lit w (rep1_cap is_digit (\<lambda>ds c. Some ds) [])) txt = Some ds"
  shows "\<exists>pre rest. txt = pre @ w @ ds @ rest \<and> (case rest of [] \<Rightarrow> True | c # cs \<Rightarrow> \<not> is_digit c)"
    and "ds \<noteq> []" and "list_all is_digit ds"
proof -
  from assms obtain pre t p where t: "txt = pre @ t"
    and m: "lit w (rep1_cap is_digit (\<lambda>ds c. Some ds) []) (p, t) = Some ds"
    unfolding match_def by (blast dest: search_SomeD)
  from m obtain t' where t': "t = w @ t'" and ds: "takeWhile is_digit t' \<noteq> []"
      "ds = takeWhile is_digit t'"
    by (auto simp: lit_Some_iff rep1_cap_all simp del: lit.simps split: if_splits)
  from ds show "ds \<noteq> []" by simp
  from ds show "list_all is_digit ds"
    by (auto simp: list_all_iff dest: set_takeWhileD)
  have "txt = pre @ w @ ds @ dropWhile is_digit t'"
    by (simp add: t t' ds)
  moreover have "case dropWhile is_digit t' of [] \<Rightarrow> True | c # cs \<Rightarrow> \<not> is_digit c"
    by (metis (mono_tags, lifting) hd_dropWhile list.case_eq_if list.sel(1) list.simps(3))
  ultimately show "\<exists>pre rest. txt = pre @ w @ ds @ rest \<and>
      (case rest of [] \<Rightarrow> True | c # cs \<Rightarrow> \<not> is_digit c)"
    by blast
qed

lemma lenMatch_shape:
  assumes "lenMatch txt = Some ds"
  shows "\<exists>pre rest. (txt = pre @ ''length '' @ ds @ rest \<or> txt = pre @ ''long '' @ ds @ rest) \<and>
           (case rest of [] \<Rightarrow> True | c # cs \<Rightarrow> \<not> is_word_char c)"
    and "ds \<noteq> []" and "list_all is_digit ds"
proof -
  let ?k = "lit '' '' (rep1_cap is_digit (\<lambda>ds. wordb (\<lambda>c. Some ds)) [])"
  from assms obtain pre t p where t: "txt = pre @ t"
    and m: "wordb (alt (lit ''length'') (lit ''long'') ?k) (p, t) = Some ds"
    unfolding lenMatch_def match_def by (blast dest: search_SomeD)
  from m have "lit ''length'' ?k (p, t) = Some ds \<or> lit ''long'' ?k (p, t) = Some ds"
    by (auto simp del: lit.simps split: if_splits dest: alt_SomeD)
  then have "\<exists>w t'. (w = ''length '' \<or> w = ''long '') \<and> t = w @ t' \<and>
      rep1_cap is_digit (\<lambda>ds. wordb (\<lambda>c. Some ds)) [] (Some CHR '' '', t') = Some ds"
    by (auto simp: lit_Some_iff simp del: lit.simps)
  then obtain w t' where w: "w = ''length '' \<or> w = ''long ''" and t': "t = w @ t'"
    and r: "rep1_cap is_digit (\<lambda>ds. wordb (\<lambda>c. Some ds)) [] (Some CHR '' '', t') = Some ds"
    by blast
  from rep1_cap_SomeD [OF r] obtain ds' rest where d: "ds' \<noteq> []" "list_all is_digit ds'"
    "t' = ds' @ rest" and k: "wordb (\<lambda>c. Some ([] @ ds')) (Some (last ds'), rest) = Some ds"
    by blast
  from k have eq: "ds = ds'" and b: "word_before (Some (last ds')) \<noteq> word_after rest"
    by (auto split: if_splits)
  from d have "is_digit (last ds')"
    by (simp add: list_all_iff)
  then have "word_before (Some (last ds'))"
    by (simp add: word_before_def is_digit_def is_word_char_def)
  with b have nw: "case rest of [] \<Rightarrow> True | c # cs \<Rightarrow> \<not> is_word_char c"
    by (auto simp: word_after_def split: list.splits)
  from d eq show "ds \<noteq> []" "list_all is_digit ds" by simp_all
  from w t t' d eq have
    "txt = pre @ ''length '' @ ds @ rest \<or> txt = pre @ ''long '' @ ds @ rest"
    by auto
  with nw show "\<exists>pre rest. (txt = pre @ ''length '' @ ds @ rest \<or> txt = pre @ ''long '' @ ds @ rest) \<and>
           (case rest of [] \<Rightarrow> True | c # cs \<Rightarrow> \<not> is_word_char c)"
    by blast
qed

text \<open>
  Claim C3, as amended. When \<open>longer than N\<close> matches, the matched digits \<open>ds\<close> stand in
  the text right after \<open>longer than\<close>, as a maximal run of digits; for \<open>N < 2^53\<close> the
  assignment sets \<open>min_length = N + 1\<close>, which is the \<open>min_length\<close> of the composed
  criteria unless the length/long pattern matches too. Likewise \<open>shorter than N\<close> sets
  \<open>max_length = N - 1\<close>. When \<open>length N\<close> or \<open>long N\<close> matches, with the digits followed by a
  word boundary, the assignment sets both fields to \<open>N\<close>, and these are the fields of
  the composed criteria. \<open>N\<close> is \<open>digits_value ds\<close>.
\<close>

theorem length_patterns_assign:
  "(longerMatch txt = Some ds \<longrightarrow>
      (\<exists>pre rest. txt = pre @ ''longer than '' @ ds @ rest \<and>
         (case rest of [] \<Rightarrow> True | c # cs \<Rightarrow> \<not> is_digit c)) \<and>
      ds \<noteq> [] \<and> list_all is_digit ds \<and>
      (digits_value ds < 2 ^ 53 \<longrightarrow>
         min_length (set_longer txt p) = Some (Num (digits_value ds + 1)) \<and>
         (lenMatch txt = None \<longrightarrow>
            min_length (parsed_of txt) = Some (Num (digits_value ds + 1))))) \<and>
   (shorterMatch txt = Some ds \<longrightarrow>
      (\<exists>pre rest. txt = pre @ ''shorter than '' @ ds @ rest \<and>
         (case rest of [] \<Rightarrow> True | c # cs \<Rightarrow> \<not> is_digit c)) \<and>
      ds \<noteq> [] \<and> list_all is_digit ds \<and>
      (digits_value ds < 2 ^ 53 \<longrightarrow>
         max_length (set_shorter txt p) = Some (Num (digits_value ds - 1)) \<and>
         (lenMatch txt = None \<longrightarrow>
            max_length (parsed_of txt) = Some (Num (digits_value ds - 1))))) \<and>
   (lenMatch txt = Some ds \<longrightarrow>
      (\<exists>pre rest. (txt = pre @ ''length '' @ ds @ rest \<or> txt = pre @ ''long '' @ ds @ rest) \<and>
         (case rest of [] \<Rightarrow> True | c # cs \<Rightarrow> \<not> is_word_char c)) \<and>
      ds \<noteq> [] \<and> list_all is_digit ds \<and>
      (digits_value ds < 2 ^ 53 \<longrightarrow>
         min_length (set_len txt p) = Some (Num (digits_value ds)) \<and>
         max_length (set_len txt p) = Some (Num (digits_value ds)) \<and>
         min_length (parsed_of txt) = Some (Num (digits_value ds)) \<and>
         max_length (parsed_of txt) = Some (Num (digits_value ds))))"
proof (intro conjI impI)
  assume m: "longerMatch txt = Some ds"
  then have s: "match (lit ''longer than '' (rep1_cap is_digit (\<lambda>ds c. Some ds) [])) txt = Some ds"
    by (simp add: longerMatch_def)
  from than_match_shape [OF s]
  show "\<exists>pre rest. txt = pre @ ''longer than '' @ ds @ rest \<and>
         (case rest of [] \<Rightarrow> True | c # cs \<Rightarrow> \<not> is_digit c)"
    and d: "ds \<noteq> []" "list_all is_digit ds"
    by blast+
  assume b: "digits_value ds < 2 ^ 53"
  from m show "min_length (set_longer txt p) = Some (Num (digits_value ds + 1))"
    by (simp add: set_longer_def parseInt_safe [OF d b])
  assume "lenMatch txt = None"
  with m show "min_length (parsed_of txt) = Some (Num (digits_value ds + 1))"
    by (simp add: parsed_min_length parseInt_safe [OF d b])
next
  assume m: "shorterMatch txt = Some ds"
  then have s: "match (lit ''shorter than '' (rep1_cap is_digit (\<lambda>ds c. Some ds) [])) txt = Some ds"
    by (simp add: shorterMatch_def)
  from than_match_shape [OF s]
  show "\<exists>pre rest. txt = pre @ ''shorter than '' @ ds @ rest \<and>
         (case rest of [] \<Rightarrow> True | c # cs \<Rightarrow> \<not> is_digit c)"
    and d: "ds \<noteq> []" "list_all is_digit ds"
    by blast+
  assume b: "digits_value ds < 2 ^ 53"
  from m show "max_length (set_shorter txt p) = Some (Num (digits_value ds - 1))"
    by (simp add: set_shorter_def parseInt_safe [OF d b])
  assume "lenMatch txt = None"
  with m show "max_length (parsed_of txt) = Some (Num (digits_value ds - 1))"
    by (simp add: parsed_max_length parseInt_safe [OF d b])
next
  assume m: "lenMatch txt = Some ds"
  from lenMatch_shape [OF m]
  show "\<exists>pre rest. (txt = pre @ ''length '' @ ds @ rest \<or> txt = pre @ ''long '' @ ds @ rest) \<and>
         (case rest of [] \<Rightarrow> True | c # cs \<Rightarrow> \<not> is_word_char c)"
    and d: "ds \<noteq> []" "list_all is_digit ds"
    by blast+
  assume b: "digits_value ds < 2 ^ 53"
  from m show "min_length (set_len txt p) = Some (Num (digits_value ds))"
    and "max_length (set_len txt p) = Some (Num (digits_value ds))"
    and "min_length (parsed_of txt) = Some (Num (digits_value ds))"
    and "max_length (parsed_of txt) = Some (Num (digits_value ds))"
    by (simp_all add: set_len_def parsed_min_length parsed_max_length parseInt_safe [OF d b])
qed

text \<open>
  The claim as stated fails for numbers that a double cannot hold: \<open>2^53 + 1\<close> is not
  a double, so \<open>longer than 9007199254740992\<close> sets \<open>min_length\<close> to \<open>9007199254740992\<close>,
  and \<open>length 9007199254740993\<close> sets both fields to \<open>9007199254740992\<close>.
\<close>

theorem length_patterns_assign_counterexample:
  "longerMatch ''longer than 9007199254740992'' = Some ''9007199254740992'' \<and>
   digits_value ''9007199254740992'' = 9007199254740992 \<and>
   parseNaturalLanguageQuery ''longer than 9007199254740992'' =
     Inr (no_criteria\<lparr>min_length := Some (Num 9007199254740992)\<rparr>) \<and>
   parseNaturalLanguageQuery ''longer than 9007199254740992'' \<noteq>
     Inr (no_criteria\<lparr>min_length := Some (Num (9007199254740992 + 1))\<rparr>) \<and>
   parseNaturalLanguageQuery ''length 9007199254740993'' =
     Inr (no_criteria\<lparr>min_length := Some (Num 9007199254740992),
       max_length := Some (Num 9007199254740992)\<rparr>)"
  by code_simp

theorem length_patterns_assign_witness:
  "longerMatch ''strings longer than 10 characters'' = Some ''10'' \<and>
   digits_value ''10'' = 10 \<and>
   min_length (parsed_of ''strings longer than 10 characters'') = Some (Num 11) \<and>
   shorterMatch ''strings shorter than 5 characters'' = Some ''5'' \<and>
   digits_value ''5'' = 5 \<and>
   max_length (parsed_of ''strings shorter than 5 characters'') = Some (Num 4) \<and>
   lenMatch ''how long 7 is it'' = Some ''7'' \<and>
   digits_value ''7'' = 7 \<and>
   min_length (parsed_of ''how long 7 is it'') = Some (Num 7) \<and>
   max_length (parsed_of ''how long 7 is it'') = Some (Num 7)"
proof -
  have a: "longerMatch ''strings longer than 10 characters'' = Some ''10''"
    "lenMatch ''strings longer than 10 characters'' = None"
    "digits_value ''10'' = 10"
    by code_simp+
  have b: "shorterMatch ''strings shorter than 5 characters'' = Some ''5''"
    "lenMatch ''strings shorter than 5 characters'' = None"
    "digits_value ''5'' = 5"
    by code_simp+
  have c: "lenMatch ''how long 7 is it'' = Some ''7''" "digits_value ''7'' = 7"
    by code_simp+
  from length_patterns_assign [of "''strings longer than 10 characters''" "''10''"] a
  have 1: "min_length (parsed_of ''strings longer than 10 characters'') = Some (Num 11)"
    by simp
  from length_patterns_assign [of "''strings shorter than 5 characters''" "''5''"] b
  have 2: "max_length (parsed_of ''strings shorter than 5 characters'') = Some (Num 4)"
    by simp
  from length_patterns_assign [of "''how long 7 is it''" "''7''"] c
  have 3: "min_length (parsed_of ''how long 7 is it'') = Some (Num 7)"
    "max_length (parsed_of ''how long 7 is it'') = Some (Num 7)"
    by simp_all
  from a b c 1 2 3 show ?thesis by simp
qed

section \<open>The word count\<close>

lemma run_starts_runs:
  "length (filter (\<lambda>i. \<not> is_space (s ! i) \<and> (if i = 0 then b else is_space (s ! (i - 1))))
     [0..<length s]) = runs b s"
proof (induction s arbitrary: b)
  case Nil
  then show ?case by simp
next
  case (Cons c cs)
  have "[0..<length (c # cs)] = 0 # map Suc [0..<length cs]"
    by (simp add: upt_conv_Cons map_Suc_upt del: upt_Suc)
  moreover have "(\<lambda>i. \<not> is_space ((c # cs) ! Suc i) \<and> is_space ((c # cs) ! i)) =
      (\<lambda>i. \<not> is_space (cs ! i) \<and> (if i = 0 then is_space c else is_space (cs ! (i - 1))))"
    by (auto simp: fun_eq_iff nth_Cons')
  ultimately show ?case
    using Cons.IH [of "is_space c"]
    by (auto simp: filter_map o_def)
qed

lemma count_nonws_runs_runs: "count_nonws_runs s = runs True s"
proof -
  have "(\<lambda>i. \<not> is_space (s ! i) \<and> (i = 0 \<or> is_space (s ! (i - 1)))) =
      (\<lambda>i. \<not> is_space (s ! i) \<and> (if i = 0 then True else is_space (s ! (i - 1))))"
    by (auto simp: fun_eq_iff)
  then show ?thesis
    unfolding count_nonws_runs_def by (simp only: run_starts_runs)
qed

lemma runs_dropWhile: "runs True (dropWhile is_space s) = runs True s"
  by (induction s) auto

lemma runs_append_spaces: "list_all is_space ws \<Longrightarrow> runs b (s @ ws) = runs b s"
proof (induction s arbitrary: b)
  case Nil
  then show ?case by (induction ws arbitrary: b) auto
next
  case (Cons c cs)
  then show ?case by simp
qed

lemma last_dropWhile: "dropWhile P xs \<noteq> [] \<Longrightarrow> last (dropWhile P xs) = last xs"
  by (induction xs) (auto split: if_splits)

lemma split_ws_length:
  "s = [] \<or> \<not> is_space (last s) \<Longrightarrow> length (split_ws cur s) = Suc (runs False s)"
proof (induction cur s rule: split_ws.induct)
  case (1 cur)
  then show ?case by simp
next
  case (2 cur c cs)
  show ?case
  proof (cases "is_space c")
    case True
    with "2.prems" have cs: "cs \<noteq> []" "\<not> is_space (last cs)"
      by (auto split: if_splits)
    then have ne: "dropWhile is_space cs \<noteq> []"
      by (metis dropWhile_eq_Nil_conv last_in_set)
    with cs have "\<not> is_space (last (dropWhile is_space cs))"
      by (simp add: last_dropWhile)
    with "2.IH"(1) [OF True] have
      "length (split_ws [] (dropWhile is_space cs)) = Suc (runs False (dropWhile is_space cs))"
      by simp
    moreover from ne obtain d ds where d: "dropWhile is_space cs = d # ds"
      by (cases "dropWhile is_space cs") auto
    then have "\<not> is_space d"
      by (metis hd_dropWhile list.sel(1) ne)
    with d have "runs True (dropWhile is_space cs) = Suc (runs False (dropWhile is_space cs))"
      by simp
    ultimately show ?thesis
      using True by (simp add: runs_dropWhile)
  next
    case False
    from "2.prems" have "cs = [] \<or> \<not> is_space (last cs)"
      by (auto split: if_splits)
    from "2.IH"(2) [OF False this] False show ?thesis
      by simp
  qed
qed

lemma trim_ends:
  "trim v = [] \<or> (\<not> is_space (hd (trim v)) \<and> \<not> is_space (last (trim v)))"
proof (cases "trim v = []")
  case True
  then show ?thesis by simp
next
  case False
  let ?u = "dropWhile is_space v"
  let ?w = "dropWhile is_space (rev ?u)"
  from False have w: "?w \<noteq> []" by (simp add: trim_def)
  have u: "?u \<noteq> []"
  proof
    assume "?u = []"
    then have "?w = []" by (simp only: rev.simps dropWhile.simps)
    with w show False by (rule notE)
  qed
  from w have "\<not> is_space (hd ?w)" by (rule hd_dropWhile)
  with w have 1: "\<not> is_space (last (trim v))"
    by (simp add: trim_def last_rev)
  from w have "last ?w = last (rev ?u)" by (rule last_dropWhile)
  with u have "last ?w = hd ?u" by (simp add: last_rev)
  moreover from u have "\<not> is_space (hd ?u)" by (rule hd_dropWhile)
  ultimately have 2: "\<not> is_space (hd (trim v))"
    using w by (simp add: trim_def hd_rev)
  from 1 2 show ?thesis by simp
qed

lemma runs_trim: "runs True (trim v) = runs True v"
proof -
  let ?u = "dropWhile is_space v"
  have "rev ?u = takeWhile is_space (rev ?u) @ dropWhile is_space (rev ?u)"
    by simp
  then have "rev (rev ?u) =
      rev (takeWhile is_space (rev ?u) @ dropWhile is_space (rev ?u))"
    by (rule arg_cong)
  then have u: "?u = trim v @ rev (takeWhile is_space (rev ?u))"
    by (simp only: rev_rev_ident rev_append trim_def)
  have "list_all is_space (rev (takeWhile is_space (rev ?u)))"
    by (auto simp: list_all_iff dest: set_takeWhileD)
  then have "runs True (trim v @ rev (takeWhile is_space (rev ?u))) = runs True (trim v)"
    by (rule runs_append_spaces)
  with u have "runs True ?u = runs True (trim v)" by simp
  then show ?thesis by (simp add: runs_dropWhile)
qed

text \<open>
  Claim C9. For every string, the \<open>word_count\<close> that \<open>analyzeString\<close> returns is the number
  of maximal runs of non-white-space characters of the trimmed string, which is also
  their number in the string itself; it is 0 for the empty string and for a string of
  white space only.
\<close>

theorem word_count_runs:
  "prop_word_count (analyzeString sha256 v) = count_nonws_runs (trim v) \<and>
   count_nonws_runs (trim v) = count_nonws_runs v \<and>
   (list_all is_space v \<longrightarrow> prop_word_count (analyzeString sha256 v) = 0)"
proof (intro conjI impI)
  show "prop_word_count (analyzeString sha256 v) = count_nonws_runs (trim v)"
  proof (cases "trim v")
    case Nil
    then show ?thesis
      by (simp add: analyzeString_def Let_def count_nonws_runs_def)
  next
    case (Cons c cs)
    with trim_ends [of v] have e: "\<not> is_space c" "\<not> is_space (last (c # cs))"
      by auto
    then have "length (split_ws [] (c # cs)) = Suc (runs False (c # cs))"
      by (intro split_ws_length) simp
    with e(1) have "length (split_ws [] (c # cs)) = runs True (c # cs)"
      by simp
    with Cons show ?thesis
      by (simp add: analyzeString_def Let_def count_nonws_runs_runs)
  qed
  show "count_nonws_runs (trim v) = count_nonws_runs v"
    by (simp add: count_nonws_runs_runs runs_trim)
  assume "list_all is_space v"
  then have "dropWhile is_space v = []"
    by (simp add: list_all_iff)
  then have "trim v = []"
    by (simp only: trim_def rev.simps dropWhile.simps)
  then show "prop_word_count (analyzeString sha256 v) = 0"
    by (simp add: analyzeString_def Let_def)
qed

theorem word_count_runs_witness:
  "prop_word_count (analyzeString (\<lambda>s. s) ''  hello   big world '') = 3 \<and>
   count_nonws_runs ''  hello   big world '' = 3 \<and>
   trim ''  hello   big world '' = ''hello   big world'' \<and>
   list_all is_space ''   '' \<and>
   prop_word_count (analyzeString (\<lambda>s. s) ''   '') = 0 \<and>
   prop_word_count (analyzeString (\<lambda>s. s) '''') = 0"
proof -
  have a: "count_nonws_runs ''  hello   big world '' = 3"
    "trim ''  hello   big world '' = ''hello   big world''"
    "list_all is_space ''   ''" "list_all is_space ''''"
    by code_simp+
  from word_count_runs [of "\<lambda>s. s" "''  hello   big world ''"] a
  have 1: "prop_word_count (analyzeString (\<lambda>s. s) ''  hello   big world '') = 3"
    by simp
  from word_count_runs [of "\<lambda>s. s" "''   ''"] a
  have 2: "prop_word_count (analyzeString (\<lambda>s. s) ''   '') = 0"
    by blast
  from word_count_runs [of "\<lambda>s. s" "''''"] a
  have 3: "prop_word_count (analyzeString (\<lambda>s. s) '''') = 0"
    by blast
  from a 1 2 3 show ?thesis by simp
qed

section \<open>Create and look up\<close>

lemma find_snoc_None:
  "find P xs = None \<Longrightarrow> find P (xs @ [x]) = (if P x then Some x else None)"
  by (induction xs) (auto split: if_splits)

text \<open>
  Claim C7 (a defect of the code). The lookup handler applies \<open>decodeURIComponent\<close> to a
  path parameter that is decoded already, so a value with a percent sign is not found
  again: after \<open>a%\<close> has been created, looking \<open>a%\<close> up is answered 500, for every store;
  looking \<open>4%4a\<close> up is the lookup of \<open>4J\<close>, answered 404 on the store that holds only
  \<open>4%4a\<close>.
\<close>

theorem lookup_decodes_again:
  "post_strings sha256 now ''a%'' [] =
     (Created \<lparr> rec_id = sha256 ''a%'', rec_value = ''a%'',
        rec_properties = analyzeString sha256 ''a%'', created_at = now \<rparr>,
      [\<lparr> rec_id = sha256 ''a%'', rec_value = ''a%'',
        rec_properties = analyzeString sha256 ''a%'', created_at = now \<rparr>]) \<and>
   get_string sha256 ''a%'' db = Some (Failure 500 ''Internal server error'') \<and>
   get_string sha256 ''4%4a'' db = get_string sha256 ''4J'' db \<and>
   post_strings (\<lambda>s. s) now ''4%4a'' [] =
     (Created \<lparr> rec_id = ''4%4a'', rec_value = ''4%4a'',
        rec_properties = analyzeString (\<lambda>s. s) ''4%4a'', created_at = now \<rparr>,
      [\<lparr> rec_id = ''4%4a'', rec_value = ''4%4a'',
        rec_properties = analyzeString (\<lambda>s. s) ''4%4a'', created_at = now \<rparr>]) \<and>
   get_string (\<lambda>s. s) ''4%4a''
     [\<lparr> rec_id = ''4%4a'', rec_value = ''4%4a'',
        rec_properties = analyzeString (\<lambda>s. s) ''4%4a'', created_at = now \<rparr>] =
     Some (Failure 404 ''String does not exist in the system'')"
proof -
  have d1: "decodeURIComponent ''a%'' = None"
    by code_simp
  have d2: "decodeURIComponent ''4%4a'' = Some [52, 74]" "decodeURIComponent ''4J'' = Some [52, 74]"
    "narrow [52, 74] = Some ''4J''"
    by code_simp+
  show ?thesis
    by (simp add: post_strings_def get_string_def analyzeString_def Let_def d1 d2)
qed

text \<open>For a value without a percent sign the round trip holds, and a second creation of
  the same value is answered 409 and leaves the store as it is.\<close>

lemma create_then_lookup_plain:
  assumes "post_strings sha256 now v db = (Created r, db')" and "CHR ''%'' \<notin> set v"
  shows "get_string sha256 v db' = Some (Found r) \<and>
         rec_value r = v \<and>
         rec_properties r = analyzeString sha256 v \<and>
         post_strings sha256 now' v db' =
           (Failure 409 ''String already exists in the system'', db')"
proof -
  let ?ident = "sha256_hash (analyzeString sha256 v)"
  have ident: "?ident = sha256 v"
    by (simp add: analyzeString_def Let_def)
  from assms have none: "find (\<lambda>s. rec_id s = sha256 v) db = None"
    by (auto simp: post_strings_def Let_def ident split: option.splits)
  with assms have r: "r = \<lparr> rec_id = sha256 v, rec_value = v,
      rec_properties = analyzeString sha256 v, created_at = now \<rparr>"
    and db': "db' = db @ [r]"
    by (auto simp: post_strings_def Let_def ident)
  have found: "find (\<lambda>s. rec_id s = sha256 v) db' = Some r"
    unfolding db' using none by (simp add: find_snoc_None r)
  from assms(2) have dec: "decodeURIComponent v = Some (map of_char v)"
    by (rule decode_plain)
  show ?thesis
    using found
    by (simp add: get_string_def post_strings_def Let_def ident r dec narrow_chars)
qed

section \<open>Lower-casing\<close>

lemma handler_InterpretedD:
  assumes "filter_by_natural_language q db = Some (Interpreted rs n orig f)"
  shows "\<exists>cps phrase. decodeURIComponent q = Some cps \<and> narrow cps = Some phrase \<and>
           parseNaturalLanguageQuery phrase = Inr f" 
    and "rs = filter (matches f) db" and "n = length rs" and "orig = q"
  using assms
  by (auto simp: filter_by_natural_language_def Let_def
      split: if_splits option.splits sum.splits)

lemma contains_lower_alnum:
  assumes "parseNaturalLanguageQuery q = Inr f" and "contains_character f = Some ch"
  shows "is_lower_alnum ch"
proof -
  from assms(1) have f: "f = parsed_of (toLowerCase q)" by (simp add: parse_InrD)
  show ?thesis
  proof (cases "str_includes (toLowerCase q) ''first vowel''")
    case True
    with assms(2) f have "ch = CHR ''a''" by (simp add: parsed_contains_character)
    then show ?thesis by (simp add: is_lower_alnum_def code_def)
  next
    case False
    with assms(2) f have "containsMatch (toLowerCase q) = Some ch"
      by (simp add: parsed_contains_character)
    then show ?thesis by (rule containsMatch_class)
  qed
qed

lemma matches_contains:
  "matches f r \<Longrightarrow> contains_character f = Some ch \<Longrightarrow> ch \<in> set (rec_value r)"
  by (auto simp: matches_def Let_def str_includes_single split: if_splits option.splits)

text \<open>
  Claim C10. The interpreter matches its patterns against the lower-cased phrase: a
  phrase and its lower-cased form are interpreted alike. Every \<open>contains_character\<close> of
  a result is a lower-case letter or a digit, itself unchanged by lower-casing;
  \<open>"containing the letter Z"\<close> yields \<open>z\<close>. The handler then filters the store with the
  criteria the interpreter returned: the records it answers are exactly the stored
  records that match, each of them has that very character in its raw value, and a
  record without it (one that has only the upper-case letter, say) is left out.
\<close>

theorem interpret_lowercases:
  "parseNaturalLanguageQuery q = parseNaturalLanguageQuery (toLowerCase q) \<and>
   (\<forall>f ch. parseNaturalLanguageQuery q = Inr f \<and> contains_character f = Some ch \<longrightarrow>
      is_lower_alnum ch \<and> to_lower_char ch = ch) \<and>
   parseNaturalLanguageQuery ''containing the letter Z'' =
     Inr (no_criteria\<lparr>contains_character := Some CHR ''z''\<rparr>) \<and>
   matches (no_criteria\<lparr>contains_character := Some ch'\<rparr>) r = (ch' \<in> set (rec_value r)) \<and>
   (\<forall>rs n orig f ch.
      filter_by_natural_language q db = Some (Interpreted rs n orig f) \<and>
      contains_character f = Some ch \<longrightarrow>
        is_lower_alnum ch \<and> rs = filter (matches f) db \<and> n = length rs \<and> orig = q \<and>
        (\<forall>r \<in> set rs. ch \<in> set (rec_value r)) \<and>
        (\<forall>r \<in> set db. ch \<notin> set (rec_value r) \<longrightarrow> r \<notin> set rs)) \<and>
   (CHR ''%'' \<notin> set q \<and>
    parseNaturalLanguageQuery q = Inr (no_criteria\<lparr>contains_character := Some ch'\<rparr>) \<longrightarrow>
      filter_by_natural_language q db =
        Some (Interpreted (filter (\<lambda>r. ch' \<in> set (rec_value r)) db)
          (length (filter (\<lambda>r. ch' \<in> set (rec_value r)) db)) q
          (no_criteria\<lparr>contains_character := Some ch'\<rparr>)))"
proof -
  have a: "\<forall>f ch. parseNaturalLanguageQuery q = Inr f \<and> contains_character f = Some ch \<longrightarrow>
      is_lower_alnum ch \<and> to_lower_char ch = ch"
  proof (intro allI impI)
    fix f ch
    assume "parseNaturalLanguageQuery q = Inr f \<and> contains_character f = Some ch"
    then have "is_lower_alnum ch" using contains_lower_alnum [of q f ch] by simp
    then show "is_lower_alnum ch \<and> to_lower_char ch = ch"
      by (simp add: is_lower_alnum_fixed)
  qed
  have b: "parseNaturalLanguageQuery ''containing the letter Z'' =
     Inr (no_criteria\<lparr>contains_character := Some CHR ''z''\<rparr>)"
    by code_simp
  have c: "matches (no_criteria\<lparr>contains_character := Some ch'\<rparr>) r = (ch' \<in> set (rec_value r))"
    for r
    by (simp add: matches_def no_criteria_def str_includes_single)
  have d: "\<forall>rs n orig f ch.
      filter_by_natural_language q db = Some (Interpreted rs n orig f) \<and>
      contains_character f = Some ch \<longrightarrow>
        is_lower_alnum ch \<and> rs = filter (matches f) db \<and> n = length rs \<and> orig = q \<and>
        (\<forall>r \<in> set rs. ch \<in> set (rec_value r)) \<and>
        (\<forall>r \<in> set db. ch \<notin> set (rec_value r) \<longrightarrow> r \<notin> set rs)"
  proof (intro allI impI)
    fix rs n orig f ch
    assume h: "filter_by_natural_language q db = Some (Interpreted rs n orig f) \<and>
      contains_character f = Some ch"
    then have i: "filter_by_natural_language q db = Some (Interpreted rs n orig f)"
      and ch: "contains_character f = Some ch" by simp_all
    from handler_InterpretedD(1) [OF i] obtain phrase where
      "parseNaturalLanguageQuery phrase = Inr f" by blast
    from this ch have 1: "is_lower_alnum ch" by (rule contains_lower_alnum)
    note rs = handler_InterpretedD(2) [OF i]
    have 2: "\<forall>r \<in> set rs. ch \<in> set (rec_value r)"
      unfolding rs using ch by (auto dest: matches_contains)
    then have 3: "\<forall>r \<in> set db. ch \<notin> set (rec_value r) \<longrightarrow> r \<notin> set rs"
      by blast
    from 1 rs handler_InterpretedD(3,4) [OF i] 2 3
    show "is_lower_alnum ch \<and> rs = filter (matches f) db \<and> n = length rs \<and> orig = q \<and>
        (\<forall>r \<in> set rs. ch \<in> set (rec_value r)) \<and>
        (\<forall>r \<in> set db. ch \<notin> set (rec_value r) \<longrightarrow> r \<notin> set rs)"
      by (intro conjI)
  qed
  have e: "CHR ''%'' \<notin> set q \<and>
    parseNaturalLanguageQuery q = Inr (no_criteria\<lparr>contains_character := Some ch'\<rparr>) \<longrightarrow>
      filter_by_natural_language q db =
        Some (Interpreted (filter (\<lambda>r. ch' \<in> set (rec_value r)) db)
          (length (filter (\<lambda>r. ch' \<in> set (rec_value r)) db)) q
          (no_criteria\<lparr>contains_character := Some ch'\<rparr>))"
  proof
    assume h: "CHR ''%'' \<notin> set q \<and>
      parseNaturalLanguageQuery q = Inr (no_criteria\<lparr>contains_character := Some ch'\<rparr>)"
    then have ne: "q \<noteq> []" by (auto dest: parse_InrD)
    from h have dec: "decodeURIComponent q = Some (map of_char q)"
      by (simp add: decode_plain)
    have m: "matches (no_criteria\<lparr>contains_character := Some ch'\<rparr>) =
        (\<lambda>r. ch' \<in> set (rec_value r))"
      by (rule ext) (rule c)
    from h have p: "parseNaturalLanguageQuery q = Inr (no_criteria\<lparr>contains_character := Some ch'\<rparr>)"
      by simp
    show "filter_by_natural_language q db =
        Some (Interpreted (filter (\<lambda>r. ch' \<in> set (rec_value r)) db)
          (length (filter (\<lambda>r. ch' \<in> set (rec_value r)) db)) q
          (no_criteria\<lparr>contains_character := Some ch'\<rparr>))"
      unfolding filter_by_natural_language_def dec
      by (simp only: ne if_False option.case narrow_chars p sum.case m Let_def)
  qed
  have l: "parseNaturalLanguageQuery q = parseNaturalLanguageQuery (toLowerCase q)"
    by (simp add: parse_lower)
  from l a b c d e show ?thesis
    by (intro conjI)
qed

theorem interpret_lowercases_witness:
  "parseNaturalLanguageQuery ''Strings CONTAINING the letter Z'' =
     Inr (no_criteria\<lparr>contains_character := Some CHR ''z''\<rparr>) \<and>
   is_lower_alnum CHR ''z'' \<and>
   filter_by_natural_language ''Strings CONTAINING the letter Z''
     [\<lparr> rec_id = ''0'', rec_value = ''Zebra'',
        rec_properties = analyzeString (\<lambda>s. s) ''Zebra'', created_at = ''t0'' \<rparr>,
      \<lparr> rec_id = ''1'', rec_value = ''jazz'',
        rec_properties = analyzeString (\<lambda>s. s) ''jazz'', created_at = ''t1'' \<rparr>] =
     Some (Interpreted
       [\<lparr> rec_id = ''1'', rec_value = ''jazz'',
          rec_properties = analyzeString (\<lambda>s. s) ''jazz'', created_at = ''t1'' \<rparr>]
       1 ''Strings CONTAINING the letter Z''
       (no_criteria\<lparr>contains_character := Some CHR ''z''\<rparr>))"
proof -
  let ?q = "''Strings CONTAINING the letter Z''"
  let ?f = "no_criteria\<lparr>contains_character := Some CHR ''z''\<rparr>"
  let ?db = "[\<lparr> rec_id = ''0'', rec_value = ''Zebra'',
        rec_properties = analyzeString (\<lambda>s. s) ''Zebra'', created_at = ''t0'' \<rparr>,
      \<lparr> rec_id = ''1'', rec_value = ''jazz'',
        rec_properties = analyzeString (\<lambda>s. s) ''jazz'', created_at = ''t1'' \<rparr>]"
  have p: "parseNaturalLanguageQuery ?q = Inr ?f"
    by code_simp
  have c: "contains_character ?f = Some CHR ''z''"
    by simp
  have n: "CHR ''%'' \<notin> set ?q" by simp
  from interpret_lowercases [of ?q] p c have 1: "is_lower_alnum CHR ''z''"
    by blast
  from interpret_lowercases [of ?q "CHR ''z''" _ ?db] p n have
    "filter_by_natural_language ?q ?db =
        Some (Interpreted (filter (\<lambda>r. CHR ''z'' \<in> set (rec_value r)) ?db)
          (length (filter (\<lambda>r. CHR ''z'' \<in> set (rec_value r)) ?db)) ?q ?f)"
    by blast
  then have 2: "filter_by_natural_language ?q ?db =
     Some (Interpreted
       [\<lparr> rec_id = ''1'', rec_value = ''jazz'',
          rec_properties = analyzeString (\<lambda>s. s) ''jazz'', created_at = ''t1'' \<rparr>]
       1 ?q ?f)"
    by simp
  from p 1 2 show ?thesis by simp
qed

section \<open>The matchers and the patterns in words\<close>

lemma somewhere_iff: "somewhere P s \<longleftrightarrow> (\<exists>pre post. s = pre @ post \<and> P pre post)"
proof
  assume "somewhere P s"
  then obtain i where "P (take i s) (drop i s)"
    unfolding somewhere_def list_ex_iff by blast
  moreover have "s = take i s @ drop i s" by simp
  ultimately show "\<exists>pre post. s = pre @ post \<and> P pre post" by blast
next
  assume "\<exists>pre post. s = pre @ post \<and> P pre post"
  then obtain pre post where s: "s = pre @ post" and p: "P pre post" by blast
  then have "length pre \<in> set [0..<Suc (length s)]" "P (take (length pre) s) (drop (length pre) s)"
    by auto
  then show "somewhere P s"
    unfolding somewhere_def list_ex_iff by blast
qed

lemma match_iff:
  "match m txt \<noteq> None \<longleftrightarrow>
   (\<exists>pre post. txt = pre @ post \<and> m (if pre = [] then None else Some (last pre), post) \<noteq> None)"
proof
  assume "match m txt \<noteq> None"
  then obtain r where "search m (None, txt) = Some r"
    by (auto simp: match_def)
  from search_SomeD [OF this] obtain pre post where
    "txt = pre @ post" "m (if pre = [] then None else Some (last pre), post) = Some r"
    by blast
  then have "txt = pre @ post \<and> m (if pre = [] then None else Some (last pre), post) \<noteq> None"
    by simp
  then show
    "\<exists>pre post. txt = pre @ post \<and> m (if pre = [] then None else Some (last pre), post) \<noteq> None"
    by blast
next
  assume "\<exists>pre post. txt = pre @ post \<and> m (if pre = [] then None else Some (last pre), post) \<noteq> None"
  then obtain pre post where t: "txt = pre @ post"
    and m: "m (if pre = [] then None else Some (last pre), post) \<noteq> None" by blast
  from m have "search m (None, pre @ post) \<noteq> None" by (rule search_complete)
  then show "match m txt \<noteq> None"
    unfolding match_def t .
qed

lemma match_somewhere:
  assumes "\<And>pre post. (m (if pre = [] then None else Some (last pre), post) \<noteq> None) = P pre post"
  shows "(match m txt \<noteq> None) = somewhere P txt"
  by (simp only: match_iff somewhere_iff assms)

lemma word_before_ctx:
  "word_before (if pre = [] then None else Some (last pre)) = ends_with is_word_char pre"
  by (simp add: word_before_def ends_with_def)

lemma word_after_starts: "word_after s = starts_with is_word_char s"
  by (simp add: word_after_def starts_with_def)

lemma takeWhile_Nil_starts: "(takeWhile P r = []) = (\<not> starts_with P r)"
  by (cases r) (auto simp: starts_with_def)

lemma starts_with_append: "w \<noteq> [] \<Longrightarrow> starts_with P (w @ r) = P (hd w)"
  by (cases w) (auto simp: starts_with_def)

lemma bounded_phrase_matcher:
  assumes "w \<noteq> []" and "is_word_char (hd w)" and "is_word_char (last w)"
  shows "(wordb (lit w (wordb accept)) (if pre = [] then None else Some (last pre), post) \<noteq> None) =
    (\<not> ends_with is_word_char pre \<and> prefix w post \<and>
     \<not> starts_with is_word_char (drop (length w) post))"
proof (cases "prefix w post")
  case False
  then show ?thesis by simp
next
  case True
  then obtain r where post: "post = w @ r" by (auto simp: prefix_def)
  with assms have "word_after post" by (simp add: word_after_starts starts_with_append)
  with assms post show ?thesis
    by (simp add: word_after_starts word_before_def ends_with_def accept_def)
qed

lemma words_number_matcher:
  "(lit (w @ '' '') (rep1_cap is_digit (\<lambda>ds c. Some ds) []) (p, post) \<noteq> None) =
   (prefix (w @ '' '') post \<and> starts_with is_digit (drop (length w + 1) post))"
  by (simp add: rep1_cap_all takeWhile_Nil_starts)

lemma digit_word_char: "is_digit c \<Longrightarrow> is_word_char c"
  by (simp add: is_digit_def is_word_char_def)

lemma rep1_cap_wordb:
  "(rep1_cap is_digit (\<lambda>ds. wordb (\<lambda>c. Some ds)) acc (p, r) \<noteq> None) =
   (starts_with is_digit r \<and> \<not> starts_with is_word_char (dropWhile is_digit r))"
proof (induction r arbitrary: acc p)
  case Nil
  then show ?case by (simp add: starts_with_def)
next
  case (Cons c cs)
  show ?case
  proof (cases "is_digit c")
    case False
    then show ?thesis by (simp add: starts_with_def)
  next
    case True
    note c = this
    show ?thesis
    proof (cases "starts_with is_digit cs")
      case True
      then have "starts_with is_word_char cs"
        by (cases cs) (auto simp: starts_with_def digit_word_char)
      with c digit_word_char [OF c] True Cons.IH [of "acc @ [c]" "Some c"] show ?thesis
        by (auto simp: word_before_def word_after_starts starts_with_def split: option.splits)
    next
      case False
      then have d: "dropWhile is_digit cs = cs"
        by (cases cs) (auto simp: starts_with_def)
      from False Cons.IH [of "acc @ [c]" "Some c"]
      have "rep1_cap is_digit (\<lambda>ds. wordb (\<lambda>c. Some ds)) (acc @ [c]) (Some c, cs) = None"
        by simp
      with c d show ?thesis
        by (simp add: word_before_def word_after_starts starts_with_def digit_word_char)
    qed
  qed
qed

lemma alt_None_iff: "(alt m1 m2 k c \<noteq> None) = (m1 k c \<noteq> None \<or> m2 k c \<noteq> None)"
  by (auto simp: alt_def split: option.splits)

lemma opt_None_iff: "(opt m k c \<noteq> None) = (m k c \<noteq> None \<or> k c \<noteq> None)"
  by (auto simp: opt_def split: option.splits)

lemma wordb_None_iff:
  "(wordb k (p, s) \<noteq> None) = (word_before p \<noteq> word_after s \<and> k (p, s) \<noteq> None)"
  by simp

lemma len_matcher:
  "(wordb (alt (lit ''length'') (lit ''long'')
       (lit '' '' (rep1_cap is_digit (\<lambda>ds. wordb (\<lambda>c. Some ds)) [])))
     (if pre = [] then None else Some (last pre), post) \<noteq> None) =
   (\<not> ends_with is_word_char pre \<and>
    list_ex (\<lambda>w. prefix (w @ '' '') post \<and>
        starts_with is_digit (drop (length w + 1) post) \<and>
        \<not> starts_with is_word_char (dropWhile is_digit (drop (length w + 1) post)))
      [''length'', ''long''])"
proof -
  let ?k = "lit '' '' (rep1_cap is_digit (\<lambda>ds. wordb (\<lambda>c. Some ds)) [])"
  have one: "(lit w ?k (p, post) \<noteq> None) =
      (prefix (w @ '' '') post \<and> starts_with is_digit (drop (length w + 1) post) \<and>
       \<not> starts_with is_word_char (dropWhile is_digit (drop (length w + 1) post)))" for w p
  proof (cases "prefix w post")
    case False
    then have "\<not> prefix (w @ '' '') post" by (auto simp: prefix_def)
    with False show ?thesis by simp
  next
    case True
    then obtain r where post: "post = w @ r" by (auto simp: prefix_def)
    show ?thesis
      by (simp add: post rep1_cap_wordb del: not_None_eq)
  qed
  define R where "R = list_ex (\<lambda>w. prefix (w @ '' '') post \<and>
        starts_with is_digit (drop (length w + 1) post) \<and>
        \<not> starts_with is_word_char (dropWhile is_digit (drop (length w + 1) post)))
      [''length'', ''long'']"
  let ?c = "(if pre = [] then None else Some (last pre), post)"
  have alts: "(alt (lit ''length'') (lit ''long'') ?k (p, post) \<noteq> None) = R" for p
    unfolding alt_None_iff one R_def by simp
  have "(wordb (alt (lit ''length'') (lit ''long'') ?k) ?c \<noteq> None) =
      (word_before (if pre = [] then None else Some (last pre)) \<noteq> word_after post \<and> R)"
    by (simp only: wordb_None_iff alts)
  also have "\<dots> = (\<not> ends_with is_word_char pre \<and> R)"
  proof (cases R)
    case False
    then show ?thesis by simp
  next
    case True
    then have "prefix ''length '' post \<or> prefix ''long '' post"
      unfolding R_def by auto
    then have "word_after post"
      by (auto simp: prefix_def word_after_def is_word_char_def code_def)
    with True show ?thesis
      by (simp only: word_before_ctx) simp
  qed
  finally show ?thesis
    unfolding R_def .
qed

lemma rep1_strict:
  assumes "\<And>p c cs. P c \<Longrightarrow> k (p, c # cs) = None"
  shows "rep1 P k (p, r) =
    (if starts_with P r then k (Some (last (takeWhile P r)), dropWhile P r) else None)"
proof (induction r arbitrary: p)
  case Nil
  then show ?case by (simp add: starts_with_def)
next
  case (Cons c cs)
  show ?case
  proof (cases "P c")
    case False
    then show ?thesis by (simp add: starts_with_def)
  next
    case True
    show ?thesis
    proof (cases "starts_with P cs")
      case st: True
      then obtain d ds where cs: "cs = d # ds" "P d"
        by (cases cs) (auto simp: starts_with_def)
      from assms [OF cs(2)] have "k (Some c, cs) = None" by (simp add: cs)
      with True st Cons.IH [of "Some c"] cs show ?thesis
        by (auto simp: starts_with_def split: option.splits)
    next
      case st: False
      then have "takeWhile P cs = []" "dropWhile P cs = cs"
        by (cases cs; auto simp: starts_with_def)+
      with True st Cons.IH [of "Some c"] show ?thesis
        by (simp add: starts_with_def)
    qed
  qed
qed

lemma space_not_alnum: "is_space c \<Longrightarrow> \<not> is_lower_alnum c"
  by (auto simp: is_space_def is_lower_alnum_def)

lemma cls_cap_None_iff:
  "(cls_cap is_lower_alnum (\<lambda>ch c. Some ch) (p, s) \<noteq> None) = starts_with is_lower_alnum s"
  by (cases s) (auto simp: starts_with_def)

lemma lit_None_iff:
  "(lit w k (p, s) \<noteq> None) =
   (prefix w s \<and> k (if w = [] then p else Some (last w), drop (length w) s) \<noteq> None)"
  by simp

lemma after_contain_matcher:
  "(rep1 is_space
      (opt (\<lambda>k. lit ''the'' (rep1 is_space (lit ''letter'' (rep1 is_space k))))
        (cls_cap is_lower_alnum (\<lambda>ch c. Some ch))) (p, r) \<noteq> None) =
   spec_after_contain r"
proof -
  let ?F = "cls_cap is_lower_alnum (\<lambda>ch c. Some ch) :: char cont"
  let ?L = "lit ''letter'' (rep1 is_space ?F)"
  let ?G = "lit ''the'' (rep1 is_space ?L)"
  have F: "?F (p, c # cs) = None" if "is_space c" for p c cs
    using that by (simp add: space_not_alnum)
  have L: "?L (p, c # cs) = None" if "is_space c" for p c cs
    using that by (auto simp: is_space_def code_def)
  have G: "?G (p, c # cs) = None" if "is_space c" for p c cs
    using that by (auto simp: is_space_def code_def)
  have O: "opt (\<lambda>k. lit ''the'' (rep1 is_space (lit ''letter'' (rep1 is_space k)))) ?F
      (p, c # cs) = None" if "is_space c" for p c cs
    using F [OF that] G [OF that] by (simp add: opt_def del: lit.simps cls_cap.simps)
  have i1: "(rep1 is_space ?F (p, s) \<noteq> None) =
      (starts_with is_space s \<and> starts_with is_lower_alnum (dropWhile is_space s))" for p s
  proof (cases "starts_with is_space s")
    case True
    then show ?thesis
      by (simp only: rep1_strict [of is_space ?F, OF F] if_True cls_cap_None_iff simp_thms)
  next
    case False
    then show ?thesis
      by (simp only: rep1_strict [of is_space ?F, OF F] if_False simp_thms)
  qed
  have l: "(?L (p, s) \<noteq> None) =
      (prefix ''letter'' s \<and> starts_with is_space (drop 6 s) \<and>
       starts_with is_lower_alnum (dropWhile is_space (drop 6 s)))" for p s
    by (simp only: lit_None_iff i1) (simp add: eval_nat_numeral)
  have i2: "(rep1 is_space ?L (p, s) \<noteq> None) =
      (starts_with is_space s \<and> prefix ''letter'' (dropWhile is_space s) \<and>
       starts_with is_space (drop 6 (dropWhile is_space s)) \<and>
       starts_with is_lower_alnum (dropWhile is_space (drop 6 (dropWhile is_space s))))" for p s
  proof (cases "starts_with is_space s")
    case True
    then show ?thesis
      by (simp only: rep1_strict [of is_space ?L, OF L] if_True l simp_thms)
  next
    case False
    then show ?thesis
      by (simp only: rep1_strict [of is_space ?L, OF L] if_False simp_thms)
  qed
  have g: "(?G (p, s) \<noteq> None) =
      (prefix ''the'' s \<and> starts_with is_space (drop 3 s) \<and>
       prefix ''letter'' (dropWhile is_space (drop 3 s)) \<and>
       starts_with is_space (drop 6 (dropWhile is_space (drop 3 s))) \<and>
       starts_with is_lower_alnum
         (dropWhile is_space (drop 6 (dropWhile is_space (drop 3 s)))))" for p s
    by (simp only: lit_None_iff i2) (simp add: eval_nat_numeral)
  have o: "(opt (\<lambda>k. lit ''the'' (rep1 is_space (lit ''letter'' (rep1 is_space k)))) ?F (p, s)
        \<noteq> None) =
      (starts_with is_lower_alnum s \<or>
       (prefix ''the'' s \<and> starts_with is_space (drop 3 s) \<and>
        prefix ''letter'' (dropWhile is_space (drop 3 s)) \<and>
        starts_with is_space (drop 6 (dropWhile is_space (drop 3 s))) \<and>
        starts_with is_lower_alnum
          (dropWhile is_space (drop 6 (dropWhile is_space (drop 3 s))))))" for p s
    unfolding opt_None_iff g cls_cap_None_iff by blast
  let ?O = "opt (\<lambda>k. lit ''the'' (rep1 is_space (lit ''letter'' (rep1 is_space k)))) ?F"
  show ?thesis
  proof (cases "starts_with is_space r")
    case True
    then show ?thesis
      by (simp only: rep1_strict [of is_space ?O, OF O] if_True o spec_after_contain_def Let_def
          simp_thms)
  next
    case False
    then show ?thesis
      by (simp only: rep1_strict [of is_space ?O, OF O] if_False spec_after_contain_def Let_def
          simp_thms)
  qed
qed

lemma contains_matcher:
  "(alt (lit ''contain'') (alt (lit ''containing'') (lit ''contains''))
      (rep1 is_space
        (opt (\<lambda>k. lit ''the'' (rep1 is_space (lit ''letter'' (rep1 is_space k))))
          (cls_cap is_lower_alnum (\<lambda>ch c. Some ch)))) (p, post) \<noteq> None) =
   list_ex (\<lambda>w. prefix w post \<and> spec_after_contain (drop (length w) post))
     [''contain'', ''containing'', ''contains'']"
  by (simp only: alt_None_iff lit_None_iff after_contain_matcher) simp

lemma single_word_iff: "(match re_single_word txt \<noteq> None) = spec_bounded_phrase ''single word'' txt"
  unfolding re_single_word_def spec_bounded_phrase_def
  by (rule match_somewhere, rule bounded_phrase_matcher)
    (simp_all add: is_word_char_def code_def)

lemma one_word_iff: "(match re_1_word txt \<noteq> None) = spec_bounded_phrase ''1 word'' txt"
  unfolding re_1_word_def spec_bounded_phrase_def
  by (rule match_somewhere, rule bounded_phrase_matcher)
    (simp_all add: is_word_char_def code_def)

lemma word_count_1_iff:
  "(match re_word_count_1 txt \<noteq> None) = spec_bounded_phrase ''word_count=1'' txt"
  unfolding re_word_count_1_def spec_bounded_phrase_def
  by (rule match_somewhere, rule bounded_phrase_matcher)
    (simp_all add: is_word_char_def code_def)

lemma longerMatch_iff: "(longerMatch txt \<noteq> None) = spec_words_number ''longer than'' txt"
proof -
  have "(match (lit (''longer than'' @ '' '') (rep1_cap is_digit (\<lambda>ds c. Some ds) [])) txt \<noteq> None) =
      somewhere (\<lambda>pre post. prefix (''longer than'' @ '' '') post \<and>
        starts_with is_digit (drop (length ''longer than'' + 1) post)) txt"
    by (rule match_somewhere) (rule words_number_matcher)
  then show ?thesis
    by (simp add: longerMatch_def spec_words_number_def del: not_None_eq)
qed

lemma shorterMatch_iff: "(shorterMatch txt \<noteq> None) = spec_words_number ''shorter than'' txt"
proof -
  have "(match (lit (''shorter than'' @ '' '') (rep1_cap is_digit (\<lambda>ds c. Some ds) [])) txt \<noteq> None) =
      somewhere (\<lambda>pre post. prefix (''shorter than'' @ '' '') post \<and>
        starts_with is_digit (drop (length ''shorter than'' + 1) post)) txt"
    by (rule match_somewhere) (rule words_number_matcher)
  then show ?thesis
    by (simp add: shorterMatch_def spec_words_number_def del: not_None_eq)
qed

lemma lenMatch_iff: "(lenMatch txt \<noteq> None) = bounded_length_number txt"
  unfolding lenMatch_def bounded_length_number_def
  by (rule match_somewhere) (rule len_matcher)

lemma containsMatch_iff: "(containsMatch txt \<noteq> None) = spec_contains txt"
  unfolding containsMatch_def spec_contains_def
  by (rule match_somewhere) (rule contains_matcher)

lemma palindromic_palindrom: "str_includes txt ''palindromic'' \<Longrightarrow> str_includes txt ''palindrom''"
proof -
  assume "str_includes txt ''palindromic''"
  then obtain ps ss where "txt = ps @ ''palindromic'' @ ss" by (auto simp: str_includes_def sublist_def)
  then have "txt = ps @ ''palindrom'' @ (''ic'' @ ss)" by simp
  then show ?thesis unfolding str_includes_def sublist_def by blast
qed

lemma keys_count_recognised: "(keys_count (parsed_of t) = 0) = (\<not> recognised t)"
proof -
  have p: "is_palindrome (parsed_of t) = None \<longleftrightarrow> \<not> spec_token ''palindrom'' t"
    using palindromic_palindrom [of t]
    by (auto simp: parsed_is_palindrome spec_token_def str_includes_def)
  have w: "word_count (parsed_of t) = None \<longleftrightarrow>
      \<not> (spec_bounded_phrase ''single word'' t \<or> spec_bounded_phrase ''1 word'' t \<or>
         spec_bounded_phrase ''word_count=1'' t)"
    unfolding parsed_word_count single_word_iff one_word_iff word_count_1_iff by simp
  have lo: "min_length (parsed_of t) = None \<longleftrightarrow>
      \<not> bounded_length_number t \<and> \<not> spec_words_number ''longer than'' t"
    unfolding lenMatch_iff [symmetric] longerMatch_iff [symmetric]
    by (auto simp: parsed_min_length split: option.splits)
  have hi: "max_length (parsed_of t) = None \<longleftrightarrow>
      \<not> bounded_length_number t \<and> \<not> spec_words_number ''shorter than'' t"
    unfolding lenMatch_iff [symmetric] shorterMatch_iff [symmetric]
    by (auto simp: parsed_max_length split: option.splits)
  have c: "contains_character (parsed_of t) = None \<longleftrightarrow>
      \<not> spec_token ''first vowel'' t \<and> \<not> spec_contains t"
    unfolding containsMatch_iff [symmetric]
    by (auto simp: parsed_contains_character spec_token_def str_includes_def)
  show ?thesis
    unfolding keys_count_0 p w lo hi c recognised_def by blast
qed

section \<open>Unparseable phrases\<close>

text \<open>
  Claim C2, as amended. The interpreter fails with \<open>Unparseable\<close> exactly for a
  non-empty phrase in whose lower-cased text none of these occurs: the token
  \<open>palindrom\<close>; \<open>single word\<close>, \<open>1 word\<close> or \<open>word_count=1\<close> at phrase boundaries;
  \<open>longer than\<close> or \<open>shorter than\<close>, a space and a digit; \<open>length\<close> or \<open>long\<close> not after a
  word character, a space, and digits not followed by a word character; \<open>contain\<close>,
  \<open>containing\<close> or \<open>contains\<close>, white space, optionally \<open>the letter\<close> between white space,
  and a character of \<open>[a-z0-9]\<close>; \<open>first vowel\<close>. The empty phrase fails with the separate
  \<open>empty query\<close> error.
\<close>

theorem unparseable_iff:
  "(parseNaturalLanguageQuery q = Inl Unparseable) = (q \<noteq> [] \<and> \<not> recognised (toLowerCase q)) \<and>
   (parseNaturalLanguageQuery q = Inl EmptyQuery) = (q = [])"
  by (auto simp: parseNaturalLanguageQuery_def Let_def keys_count_recognised)

text \<open>
  The claim as stated fails in both directions. None of the seven patterns matches
  \<open>word_count=1\<close>, which is interpreted as \<open>word_count = 1\<close>; and pattern 5 matches
  \<open>wavelength 10\<close>, which is unparseable, because the interpreter wants \<open>length\<close> at a
  word boundary.
\<close>

theorem unparseable_counterexample:
  "\<not> (parseNaturalLanguageQuery ''word_count=1'' = Inl Unparseable \<longleftrightarrow>
       \<not> spec_patterns_match (toLowerCase ''word_count=1'')) \<and>
   \<not> (parseNaturalLanguageQuery ''wavelength 10'' = Inl Unparseable \<longleftrightarrow>
       \<not> spec_patterns_match (toLowerCase ''wavelength 10''))"
  by code_simp

theorem unparseable_iff_witness:
  "parseNaturalLanguageQuery ''no recognizable tokens here'' = Inl Unparseable \<and>
   \<not> recognised (toLowerCase ''no recognizable tokens here'') \<and>
   parseNaturalLanguageQuery ''wavelength 10'' = Inl Unparseable \<and>
   \<not> recognised (toLowerCase ''wavelength 10'') \<and>
   recognised (toLowerCase ''word_count=1'') \<and>
   parseNaturalLanguageQuery ''word_count=1'' \<noteq> Inl Unparseable \<and>
   recognised (toLowerCase ''Length 10'') \<and>
   parseNaturalLanguageQuery ''Length 10'' \<noteq> Inl Unparseable"
proof -
  have a: "\<not> recognised (toLowerCase ''no recognizable tokens here'')"
    "\<not> recognised (toLowerCase ''wavelength 10'')"
    "recognised (toLowerCase ''word_count=1'')"
    "recognised (toLowerCase ''Length 10'')"
    by code_simp+
  from unparseable_iff [of "''no recognizable tokens here''"]
    unparseable_iff [of "''wavelength 10''"]
    unparseable_iff [of "''word_count=1''"]
    unparseable_iff [of "''Length 10''"] a
  show ?thesis by simp
qed

section \<open>Conflicting length bounds\<close>

text \<open>
  Claim C1 (a defect of the code). Both list handlers filter by the same criteria, but
  only the natural-language path checks the bounds: \<open>min_length=10&max_length=5\<close> on the
  structured path is answered 200 with no record and the criteria echoed, while the
  phrase \<open>longer than 9 shorter than 6\<close>, which composes the same two bounds, fails with
  \<open>ConflictingFilters\<close> and is answered 422.
\<close>

theorem structured_list_ignores_conflict:
  "build_filters None (Some ''10'') (Some ''5'') None None =
     Inr (no_criteria\<lparr>min_length := Some (Num 10), max_length := Some (Num 5)\<rparr>) \<and>
   num_less (Num 5) (Num 10) \<and>
   list_strings None (Some ''10'') (Some ''5'') None None
     [\<lparr> rec_id = ''racecar'', rec_value = ''racecar'',
        rec_properties = analyzeString (\<lambda>s. s) ''racecar'', created_at = ''t0'' \<rparr>] =
     Listed [] 0 (no_criteria\<lparr>min_length := Some (Num 10), max_length := Some (Num 5)\<rparr>) \<and>
   parsed_of ''longer than 9 shorter than 6'' =
     no_criteria\<lparr>min_length := Some (Num 10), max_length := Some (Num 5)\<rparr> \<and>
   parseNaturalLanguageQuery ''longer than 9 shorter than 6'' = Inl ConflictingFilters \<and>
   filter_by_natural_language ''longer than 9 shorter than 6''
     [\<lparr> rec_id = ''racecar'', rec_value = ''racecar'',
        rec_properties = analyzeString (\<lambda>s. s) ''racecar'', created_at = ''t0'' \<rparr>] =
     Some (Failure 422 ''Query parsed but resulted in conflicting filters'')"
  by code_simp

lemma num_less_between:
  "num_less hi lo \<Longrightarrow> num_less (Num n) lo \<or> num_less hi (Num n)"
  by (cases hi; cases lo) auto

lemma conflicting_no_match: "conflicting f \<Longrightarrow> \<not> matches f r"
  by (auto simp: conflicting_def matches_def Let_def split: option.splits
      dest: num_less_between [where n = "int (prop_length (rec_properties r))"])

text \<open>In general: the natural-language path answers 422 whenever the composed bounds
  conflict and never returns conflicting criteria; the structured path answers such
  criteria with the empty list.\<close>

lemma conflicting_bounds:
  "(q \<noteq> [] \<and> decodeURIComponent q = Some cps \<and> narrow cps = Some phrase \<and>
    min_length (parsed_of (toLowerCase phrase)) = Some lo \<and>
    max_length (parsed_of (toLowerCase phrase)) = Some hi \<and> num_less hi lo \<longrightarrow>
      parseNaturalLanguageQuery phrase = Inl ConflictingFilters \<and>
      filter_by_natural_language q db =
        Some (Failure 422 ''Query parsed but resulted in conflicting filters'')) \<and>
   (parseNaturalLanguageQuery phrase = Inr f \<and> min_length f = Some lo \<and>
    max_length f = Some hi \<longrightarrow>
      \<not> num_less hi lo) \<and>
   (build_filters a b c d e = Inr f' \<and> min_length f' = Some lo \<and> max_length f' = Some hi \<and>
    num_less hi lo \<longrightarrow>
      list_strings a b c d e db = Listed [] 0 f')"
proof (intro conjI impI)
  assume h: "q \<noteq> [] \<and> decodeURIComponent q = Some cps \<and> narrow cps = Some phrase \<and>
    min_length (parsed_of (toLowerCase phrase)) = Some lo \<and>
    max_length (parsed_of (toLowerCase phrase)) = Some hi \<and> num_less hi lo"
  then have k: "keys_count (parsed_of (toLowerCase phrase)) \<noteq> 0"
    by (simp add: keys_count_0)
  from h have c: "conflicting (parsed_of (toLowerCase phrase))"
    by (simp add: conflicting_def)
  have ne: "phrase \<noteq> []"
  proof
    assume "phrase = []"
    then have "parsed_of (toLowerCase phrase) = no_criteria"
      by (simp add: toLowerCase_def) code_simp
    with h show False by (simp add: no_criteria_def)
  qed
  from ne k c show p: "parseNaturalLanguageQuery phrase = Inl ConflictingFilters"
    by (simp add: parseNaturalLanguageQuery_def Let_def)
  from h p show "filter_by_natural_language q db =
      Some (Failure 422 ''Query parsed but resulted in conflicting filters'')"
    by (simp add: filter_by_natural_language_def error_code_def error_message_def)
next
  assume "parseNaturalLanguageQuery phrase = Inr f \<and> min_length f = Some lo \<and>
    max_length f = Some hi"
  then show "\<not> num_less hi lo"
    by (auto simp: conflicting_def dest!: parse_InrD)
next
  assume h: "build_filters a b c d e = Inr f' \<and> min_length f' = Some lo \<and>
    max_length f' = Some hi \<and> num_less hi lo"
  then have "conflicting f'" by (simp add: conflicting_def)
  then have "filter (matches f') db = []"
    by (simp add: conflicting_no_match)
  with h show "list_strings a b c d e db = Listed [] 0 f'"
    by (simp add: list_strings_def)
qed

end
